theory Spec2Isabelle
  imports Main "HOL-Library.Char_ord" "HOL-Library.List_Lexorder" "HOL-Library.AList"
    "HOL-Library.Multiset"
begin

section \<open>JavaScript string and path primitives\<close>

text \<open>
  Strings are lists of 8-bit characters. The source's strings are sequences of UTF-16 code
  units; the model agrees with it on ASCII text, which is what package names, file names and
  CSS keywords consist of. Case conversion and white-space classes are the ASCII ones.
\<close>

definition startsWith :: "string \<Rightarrow> string \<Rightarrow> bool" where
  "startsWith s p \<longleftrightarrow> take (length p) s = p"

definition endsWith :: "string \<Rightarrow> string \<Rightarrow> bool" where
  "endsWith s p \<longleftrightarrow> length p \<le> length s \<and> drop (length s - length p) s = p"

text \<open>\<^verbatim>\<open>s.includes(p)\<close>: \<open>p\<close> occurs in \<open>s\<close> as a contiguous substring.\<close>

fun includesStr :: "string \<Rightarrow> string \<Rightarrow> bool" where
  "includesStr [] p = (p = [])"
| "includesStr (c # s) p = (startsWith (c # s) p \<or> includesStr s p)"

text \<open>\<^verbatim>\<open>s.replace(p, r)\<close> with a string pattern: only the first occurrence is replaced.\<close>

fun replaceFirst :: "string \<Rightarrow> string \<Rightarrow> string \<Rightarrow> string" where
  "replaceFirst [] p r = (if p = [] then r else [])"
| "replaceFirst (c # s) p r =
     (if startsWith (c # s) p then r @ drop (length p) (c # s) else c # replaceFirst s p r)"

definition toLowerChar :: "char \<Rightarrow> char" where
  "toLowerChar c = (let n = (of_char c :: nat) in if 65 \<le> n \<and> n \<le> 90 then char_of (n + 32) else c)"

definition toLowerCase :: "string \<Rightarrow> string" where
  "toLowerCase s = map toLowerChar s"

definition isJsSpace :: "char \<Rightarrow> bool" where
  "isJsSpace c \<longleftrightarrow> c \<in> set [CHR '' '', CHR 0x09, CHR 0x0A, CHR 0x0B, CHR 0x0C, CHR 0x0D]"

text \<open>\<^verbatim>\<open>s.replace(/\s+/g, "-")\<close>: every maximal run of white space becomes one hyphen.\<close>

function replaceSpaces :: "string \<Rightarrow> string" where
  "replaceSpaces [] = []"
| "replaceSpaces (c # s) =
     (if isJsSpace c then CHR ''-'' # replaceSpaces (dropWhile isJsSpace s)
      else c # replaceSpaces s)"
  by pat_completeness auto
termination
  by (relation "measure length") (auto simp: length_dropWhile_le less_Suc_eq_le)

text \<open>\<^verbatim>\<open>s.split(d)\<close> for a one-character delimiter; the empty string splits into one empty field.\<close>

fun splitOn :: "char \<Rightarrow> string \<Rightarrow> string list" where
  "splitOn d [] = [[]]"
| "splitOn d (c # s) =
     (if c = d then [] # splitOn d s
      else (case splitOn d s of [] \<Rightarrow> [[c]] | p # ps \<Rightarrow> (c # p) # ps))"

text \<open>\<^verbatim>\<open>xs.join(sep)\<close>.\<close>

fun joinWith :: "string \<Rightarrow> string list \<Rightarrow> string" where
  "joinWith sep [] = []"
| "joinWith sep [x] = x"
| "joinWith sep (x # y # ys) = x @ sep @ joinWith sep (y # ys)"

text \<open>
  \<^verbatim>\<open>path.join(a, b)\<close> on POSIX paths whose segments are already normal (no \<^verbatim>\<open>.\<close>,
  \<^verbatim>\<open>..\<close> or doubled separators): the two parts with one separator between them.
\<close>

definition join :: "string \<Rightarrow> string \<Rightarrow> string" where
  "join a b = a @ ''/'' @ b"

text \<open>\<^verbatim>\<open>path.basename\<close>: trailing separators are ignored, then the last segment is taken.\<close>

definition basename :: "string \<Rightarrow> string" where
  "basename p =
     (let q = dropWhile (\<lambda>c. c = CHR ''/'') (rev p)
      in rev (takeWhile (\<lambda>c. c \<noteq> CHR ''/'') q))"

text \<open>
  \<^verbatim>\<open>path.extname\<close>: from the last dot of the base name to its end; empty when there is no dot,
  when the only dot is the first character, and for the name \<^verbatim>\<open>..\<close>.
\<close>

definition extname :: "string \<Rightarrow> string" where
  "extname p =
     (let b = basename p; r = takeWhile (\<lambda>c. c \<noteq> CHR ''.'') (rev b)
      in if length r = length b then []
         else if Suc (length r) = length b then []
         else if b = ''..'' then []
         else CHR ''.'' # rev r)"

text \<open>Decimal digits and \<^verbatim>\<open>parseInt(s, 10)\<close>; \<open>None\<close> is \<^verbatim>\<open>NaN\<close>.\<close>

definition isDigit :: "char \<Rightarrow> bool" where
  "isDigit c \<longleftrightarrow> (let n = (of_char c :: nat) in 48 \<le> n \<and> n \<le> 57)"

definition digitVal :: "char \<Rightarrow> nat" where
  "digitVal c = (of_char c :: nat) - 48"

definition digitsToNat :: "string \<Rightarrow> nat" where
  "digitsToNat ds = foldl (\<lambda>acc c. 10 * acc + digitVal c) 0 ds"

definition parseInt :: "string \<Rightarrow> int option" where
  "parseInt s =
     (let t = dropWhile isJsSpace s;
          neg = (case t of [] \<Rightarrow> False | c # _ \<Rightarrow> c = CHR ''-'');
          u = (case t of [] \<Rightarrow> [] | c # r \<Rightarrow> if c = CHR ''-'' \<or> c = CHR ''+'' then r else t);
          ds = takeWhile isDigit u
      in if ds = [] then None
         else Some (if neg then - int (digitsToNat ds) else int (digitsToNat ds)))"

text \<open>Printing a non-negative integer in decimal, and \<^verbatim>\<open>String(n)\<close> for an integer.\<close>

fun natToDigits :: "nat \<Rightarrow> string" where
  "natToDigits n =
     (if n < 10 then [char_of (48 + n)]
      else natToDigits (n div 10) @ [char_of (48 + n mod 10)])"

declare natToDigits.simps [simp del]

definition numToString :: "int \<Rightarrow> string" where
  "numToString i = (if i < 0 then CHR ''-'' # natToDigits (nat (- i)) else natToDigits (nat i))"

section \<open>Data model (types.ts)\<close>

record FontConfig =
  cfg_package :: string
  cfg_family :: string
  cfg_variable :: bool
  cfg_preload :: "bool option"
  cfg_weights :: "int list option"
  cfg_styles :: "string list option"
  cfg_subsets :: "string list option"
  cfg_axes :: "string list option"
  cfg_fallback :: "string option"
  cfg_display :: "string option"
  cfg_unicodeRanges :: "(string \<times> string) list option"
  cfg_priority :: "int option"

record AxisRange =
  ax_min :: int
  ax_max :: int
  ax_default :: int

text \<open>
  Metadata is parsed from a JSON file, so any property may be absent; the source guards
  the absence of the array-valued ones with \<^verbatim>\<open>||\<close>. The empty object \<^verbatim>\<open>{}\<close> that a failed
  font carries is \<open>emptyMetadata\<close>.
\<close>

record FontMetadata =
  md_family :: "string option"
  md_subsets :: "string list option"
  md_weights :: "int list option"
  md_styles :: "string list option"
  md_axes :: "(string \<times> AxisRange) list option"
  md_unicodeRange :: "(string \<times> string) list option"

definition emptyMetadata :: FontMetadata where
  "emptyMetadata = \<lparr> md_family = None, md_subsets = None, md_weights = None, md_styles = None,
     md_axes = None, md_unicodeRange = None \<rparr>"

record FontFile =
  ff_path :: "string option"
  ff_fileName :: string
  ff_subset :: string
  ff_style :: string
  ff_weight :: "int option"
  ff_variable :: bool
  ff_url :: "string option"
  ff_hash :: "string option"
  ff_size :: "nat option"

record ProcessedFont =
  pf_config :: FontConfig
  pf_metadata :: FontMetadata
  pf_files :: "FontFile list"
  pf_errors :: "string list"

record CacheEntry =
  ce_timestamp :: int
  ce_configHash :: string
  ce_fonts :: "ProcessedFont list"
  ce_version :: string

record FallbackFontMetrics =
  fallback :: string
  sizeAdjust :: string
  ascentOverride :: string
  descentOverride :: string
  lineGapOverride :: string

record ModuleOptions =
  opt_fonts :: "FontConfig list"
  opt_outputDir :: "string option"
  opt_display :: "string option"
  opt_fallbacks :: bool

section \<open>Optional values and truthiness\<close>

text \<open>
  \<^verbatim>\<open>s || d\<close> and \<^verbatim>\<open>s ? a : b\<close> on an optional string: \<^verbatim>\<open>undefined\<close> and the empty string are
  falsy. An array is truthy even when empty, so \<^verbatim>\<open>xs || d\<close> only replaces \<^verbatim>\<open>undefined\<close>.
\<close>

definition truthyStr :: "string option \<Rightarrow> bool" where
  "truthyStr s \<longleftrightarrow> (case s of None \<Rightarrow> False | Some t \<Rightarrow> t \<noteq> [])"

definition orElse :: "string option \<Rightarrow> string \<Rightarrow> string" where
  "orElse s d = (case s of None \<Rightarrow> d | Some t \<Rightarrow> if t = [] then d else t)"

definition orElseList :: "'a list option \<Rightarrow> 'a list \<Rightarrow> 'a list" where
  "orElseList xs d = (case xs of None \<Rightarrow> d | Some ys \<Rightarrow> ys)"

text \<open>Interpolating a possibly absent string into a template literal.\<close>

definition showOpt :: "string option \<Rightarrow> string" where
  "showOpt s = (case s of None \<Rightarrow> ''undefined'' | Some t \<Rightarrow> t)"

definition apos :: string where
  "apos = [CHR 0x27]"

definition nl :: string where
  "nl = [CHR 0x0A]"

section \<open>Stable sorting with a comparator\<close>

text \<open>
  \<^verbatim>\<open>Array.prototype.sort\<close> is stable, and for a comparator that is a consistent ordering its
  result is the one stable insertion sort computes: an element is placed before the first
  element of the sorted rest that it does not compare greater than.
\<close>

fun insertBy :: "('a \<Rightarrow> 'a \<Rightarrow> int) \<Rightarrow> 'a \<Rightarrow> 'a list \<Rightarrow> 'a list" where
  "insertBy cmp x [] = [x]"
| "insertBy cmp x (y # ys) = (if cmp x y \<le> 0 then x # y # ys else y # insertBy cmp x ys)"

definition sortBy :: "('a \<Rightarrow> 'a \<Rightarrow> int) \<Rightarrow> 'a list \<Rightarrow> 'a list" where
  "sortBy cmp xs = foldr (insertBy cmp) xs []"

text \<open>
  The default comparator of \<^verbatim>\<open>sort()\<close> orders elements by their string conversions,
  compared code unit by code unit.
\<close>

definition defaultCompare :: "('a \<Rightarrow> string) \<Rightarrow> 'a \<Rightarrow> 'a \<Rightarrow> int" where
  "defaultCompare toStr a b = (if toStr a < toStr b then - 1 else if toStr b < toStr a then 1 else 0)"

text \<open>
  \<^verbatim>\<open>a.localeCompare(b)\<close> belongs to the JavaScript engine. A collation compares the sort keys
  it assigns to the two strings; the key assignment \<open>collKey\<close> is a parameter of the model.
\<close>

definition localeCompare :: "(string \<Rightarrow> 'k::linorder) \<Rightarrow> string \<Rightarrow> string \<Rightarrow> int" where
  "localeCompare collKey a b =
     (if collKey a < collKey b then - 1 else if collKey b < collKey a then 1 else 0)"

section \<open>Fallback metrics (fallback-metrics.ts)\<close>

definition mkMetrics :: "string \<Rightarrow> string \<Rightarrow> string \<Rightarrow> string \<Rightarrow> string \<Rightarrow> FallbackFontMetrics" where
  "mkMetrics fb sa ao de lg =
     \<lparr> fallback = fb, sizeAdjust = sa, ascentOverride = ao, descentOverride = de,
       lineGapOverride = lg \<rparr>"

text \<open>
  The table of pre-calculated metrics, in the order of the source. A lookup
  \<^verbatim>\<open>fallbackMetrics[name]\<close> is modelled on the table's own keys.
\<close>

definition fallbackMetrics :: "(string \<times> FallbackFontMetrics) list" where
  "fallbackMetrics =
     [ (''Montserrat'', mkMetrics ''Arial, Helvetica Neue, Helvetica, sans-serif'' ''106.25%'' ''95%'' ''23%'' ''0%''),
       (''Montserrat Variable'', mkMetrics ''Arial, Helvetica Neue, Helvetica, sans-serif'' ''106.25%'' ''95%'' ''23%'' ''0%''),
       (''Inter'', mkMetrics ''Arial, Helvetica Neue, Helvetica, sans-serif'' ''107.5%'' ''90%'' ''22.5%'' ''0%''),
       (''Inter Variable'', mkMetrics ''Arial, Helvetica Neue, Helvetica, sans-serif'' ''107.5%'' ''90%'' ''22.5%'' ''0%''),
       (''Roboto'', mkMetrics ''Arial, Helvetica Neue, Helvetica, sans-serif'' ''100.3%'' ''92.7%'' ''24.4%'' ''0%''),
       (''Open Sans'', mkMetrics ''Arial, Helvetica Neue, Helvetica, sans-serif'' ''104.5%'' ''93%'' ''24.3%'' ''0%''),
       (''Open Sans Variable'', mkMetrics ''Arial, Helvetica Neue, Helvetica, sans-serif'' ''104.5%'' ''93%'' ''24.3%'' ''0%''),
       (''Raleway'', mkMetrics ''Arial, Helvetica Neue, Helvetica, sans-serif'' ''105.2%'' ''94.2%'' ''23.1%'' ''0%''),
       (''Raleway Variable'', mkMetrics ''Arial, Helvetica Neue, Helvetica, sans-serif'' ''105.2%'' ''94.2%'' ''23.1%'' ''0%''),
       (''Poppins'', mkMetrics ''Arial, Helvetica Neue, Helvetica, sans-serif'' ''111.5%'' ''91%'' ''21.5%'' ''0%''),
       (''Source Sans Pro'', mkMetrics ''Arial, Helvetica Neue, Helvetica, sans-serif'' ''101.2%'' ''91.8%'' ''23.8%'' ''0%''),
       (''Source Sans 3'', mkMetrics ''Arial, Helvetica Neue, Helvetica, sans-serif'' ''101.2%'' ''91.8%'' ''23.8%'' ''0%''),
       (''Source Sans 3 Variable'', mkMetrics ''Arial, Helvetica Neue, Helvetica, sans-serif'' ''101.2%'' ''91.8%'' ''23.8%'' ''0%''),
       (''Lora'', mkMetrics ''Georgia, Times New Roman, Times, serif'' ''97.5%'' ''93%'' ''25%'' ''0%''),
       (''Lora Variable'', mkMetrics ''Georgia, Times New Roman, Times, serif'' ''97.5%'' ''93%'' ''25%'' ''0%''),
       (''Merriweather'', mkMetrics ''Georgia, Times New Roman, Times, serif'' ''92.3%'' ''96.5%'' ''26.8%'' ''0%''),
       (''Playfair Display'', mkMetrics ''Georgia, Times New Roman, Times, serif'' ''108.7%'' ''88%'' ''22%'' ''0%''),
       (''Playfair Display Variable'', mkMetrics ''Georgia, Times New Roman, Times, serif'' ''108.7%'' ''88%'' ''22%'' ''0%''),
       (''PT Serif'', mkMetrics ''Georgia, Times New Roman, Times, serif'' ''98.6%'' ''91.5%'' ''24.5%'' ''0%''),
       (''Noto Serif'', mkMetrics ''Georgia, Times New Roman, Times, serif'' ''101.1%'' ''91%'' ''24%'' ''0%''),
       (''Crimson Text'', mkMetrics ''Georgia, Times New Roman, Times, serif'' ''93.8%'' ''94.5%'' ''26.2%'' ''0%''),
       (''Fira Code'', mkMetrics ''Courier New, Courier, monospace'' ''97.5%'' ''95%'' ''24%'' ''0%''),
       (''Fira Code Variable'', mkMetrics ''Courier New, Courier, monospace'' ''97.5%'' ''95%'' ''24%'' ''0%''),
       (''JetBrains Mono'', mkMetrics ''Courier New, Courier, monospace'' ''95.3%'' ''96.8%'' ''25.2%'' ''0%''),
       (''JetBrains Mono Variable'', mkMetrics ''Courier New, Courier, monospace'' ''95.3%'' ''96.8%'' ''25.2%'' ''0%''),
       (''Source Code Pro'', mkMetrics ''Courier New, Courier, monospace'' ''96.8%'' ''94.2%'' ''24.8%'' ''0%''),
       (''Source Code Variable'', mkMetrics ''Courier New, Courier, monospace'' ''96.8%'' ''94.2%'' ''24.8%'' ''0%''),
       (''Roboto Mono'', mkMetrics ''Courier New, Courier, monospace'' ''99.2%'' ''93.5%'' ''24.5%'' ''0%''),
       (''IBM Plex Mono'', mkMetrics ''Courier New, Courier, monospace'' ''98.5%'' ''94%'' ''25%'' ''0%''),
       (''Bebas Neue'', mkMetrics ''Arial Narrow, Arial, sans-serif'' ''119.5%'' ''82%'' ''16%'' ''0%''),
       (''Oswald'', mkMetrics ''Arial Narrow, Arial, sans-serif'' ''105.8%'' ''92.5%'' ''20.5%'' ''0%''),
       (''Oswald Variable'', mkMetrics ''Arial Narrow, Arial, sans-serif'' ''105.8%'' ''92.5%'' ''20.5%'' ''0%''),
       (''DM Sans'', mkMetrics ''-apple-system, BlinkMacSystemFont, Segoe UI, Helvetica, Arial, sans-serif'' ''102.3%'' ''92%'' ''24%'' ''0%''),
       (''DM Sans Variable'', mkMetrics ''-apple-system, BlinkMacSystemFont, Segoe UI, Helvetica, Arial, sans-serif'' ''102.3%'' ''92%'' ''24%'' ''0%''),
       (''Work Sans'', mkMetrics ''-apple-system, BlinkMacSystemFont, Segoe UI, Helvetica, Arial, sans-serif'' ''103.8%'' ''91.5%'' ''23.5%'' ''0%''),
       (''Work Sans Variable'', mkMetrics ''-apple-system, BlinkMacSystemFont, Segoe UI, Helvetica, Arial, sans-serif'' ''103.8%'' ''91.5%'' ''23.5%'' ''0%''),
       (''Material Icons'', mkMetrics ''sans-serif'' ''100%'' ''normal'' ''normal'' ''normal''),
       (''Material Icons Rounded'', mkMetrics ''sans-serif'' ''100%'' ''normal'' ''normal'' ''normal''),
       (''Material Symbols Rounded'', mkMetrics ''sans-serif'' ''100%'' ''normal'' ''normal'' ''normal''),
       (''Material Symbols Rounded Variable'', mkMetrics ''sans-serif'' ''100%'' ''normal'' ''normal'' ''normal''),
       (''Font Awesome'', mkMetrics ''sans-serif'' ''100%'' ''normal'' ''normal'' ''normal'') ]"

definition getFallbackMetricsForFont :: "string \<Rightarrow> string option \<Rightarrow> FallbackFontMetrics" where
  "getFallbackMetricsForFont fontFamily customFallback =
     (case map_of fallbackMetrics fontFamily of
        Some m \<Rightarrow> if truthyStr customFallback then m\<lparr>fallback := the customFallback\<rparr> else m
      | None \<Rightarrow>
          let baseFamily = replaceFirst fontFamily '' Variable'' [] in
          (case map_of fallbackMetrics baseFamily of
             Some m \<Rightarrow> if truthyStr customFallback then m\<lparr>fallback := the customFallback\<rparr> else m
           | None \<Rightarrow>
               let lowerFamily = toLowerCase fontFamily in
               if includesStr lowerFamily ''mono'' \<or> includesStr lowerFamily ''code''
               then mkMetrics (orElse customFallback ''Courier New, Courier, monospace'')
                      ''98%'' ''94%'' ''25%'' ''0%''
               else if includesStr lowerFamily ''serif'' \<and> \<not> includesStr lowerFamily ''sans''
               then mkMetrics (orElse customFallback ''Georgia, Times New Roman, Times, serif'')
                      ''100%'' ''92%'' ''25%'' ''0%''
               else if includesStr lowerFamily ''icon'' \<or> includesStr lowerFamily ''symbols''
               then mkMetrics (orElse customFallback ''sans-serif'')
                      ''100%'' ''normal'' ''normal'' ''normal''
               else mkMetrics (orElse customFallback ''Arial, Helvetica, sans-serif'')
                      ''100%'' ''93%'' ''24%'' ''0%''))"

text \<open>
  \<^verbatim>\<open>FontProcessor.getFallbackMetrics\<close>, the private lookup that the stylesheet generator
  calls for the fallback face.
\<close>

definition getFallbackMetrics :: "string \<Rightarrow> string option \<Rightarrow> FallbackFontMetrics" where
  "getFallbackMetrics family customFallback =
     (case map_of fallbackMetrics family of
        Some m \<Rightarrow> m
      | None \<Rightarrow>
          let category = (if includesStr (toLowerCase family) ''serif'' then ''serif'' else ''sans-serif'')
          in mkMetrics
               (orElse customFallback
                  (if category = ''serif'' then ''Georgia, serif'' else ''Arial, sans-serif''))
               ''100%'' ''normal'' ''normal'' ''0%'')"

section \<open>File-name parsing (FontProcessor.parseFileName)\<close>

text \<open>
  The descriptor that \<^verbatim>\<open>parseFileName\<close> returns: the \<^verbatim>\<open>Partial<FontFile>\<close> with the five
  properties it sets. \<open>None\<close> is the source's \<^verbatim>\<open>null\<close>.
\<close>

record FileInfo =
  fi_fileName :: string
  fi_subset :: string
  fi_style :: string
  fi_weight :: "int option"
  fi_variable :: bool

definition parseFileName :: "string \<Rightarrow> FontConfig \<Rightarrow> FileInfo option" where
  "parseFileName filePath config =
     (let fileName = basename filePath;
          ext = extname fileName
      in if ext \<notin> set [''.woff'', ''.woff2''] then None
         else
           let parts = splitOn CHR ''-'' (take (length fileName - length ext) fileName);
               n = length parts
           in if n < 3 then None
              else Some \<lparr> fi_fileName = fileName,
                          fi_subset = parts ! (n - 3),
                          fi_style = parts ! (n - 1),
                          fi_weight = (if \<not> cfg_variable config then parseInt (parts ! (n - 2)) else None),
                          fi_variable = cfg_variable config \<rparr>)"

section \<open>The file system and the run-time services\<close>

text \<open>
  A file holds bytes; a JSON file is identified with the value that \<^verbatim>\<open>JSON.parse\<close> reads from
  it, which keeps \<^verbatim>\<open>JSON.parse\<close> and \<^verbatim>\<open>JSON.stringify\<close> out of the model. The file system is an
  association list from absolute, normalised paths to entries.
\<close>

datatype content = Blob string | MetadataJson FontMetadata | CacheJson CacheEntry

datatype fnode = Directory | File content

record fentry =
  fe_node :: fnode
  fe_size :: nat
  fe_mtimeMs :: int

type_synonym FS = "(string \<times> fentry) list"

definition existsSync :: "FS \<Rightarrow> string \<Rightarrow> bool" where
  "existsSync fs p \<longleftrightarrow> map_of fs p \<noteq> None"

text \<open>Failing system calls throw; the model returns the message on the left.\<close>

definition readFileSync :: "FS \<Rightarrow> string \<Rightarrow> string + content" where
  "readFileSync fs p =
     (case map_of fs p of
        None \<Rightarrow> Inl (''ENOENT: no such file or directory, open '' @ apos @ p @ apos)
      | Some e \<Rightarrow>
          (case fe_node e of
             Directory \<Rightarrow> Inl ''EISDIR: illegal operation on a directory, read''
           | File c \<Rightarrow> Inr c))"

definition dirname :: "string \<Rightarrow> string" where
  "dirname p = rev (drop 1 (dropWhile (\<lambda>c. c \<noteq> CHR ''/'') (rev p)))"

text \<open>
  Writing a file needs its directory to exist and the destination not to be a directory.
\<close>

definition writeEntry :: "FS \<Rightarrow> string \<Rightarrow> fentry \<Rightarrow> string + FS" where
  "writeEntry fs dest e =
     (case map_of fs (dirname dest) of
        None \<Rightarrow> Inl (''ENOENT: no such file or directory, open '' @ apos @ dest @ apos)
      | Some d \<Rightarrow>
          (case fe_node d of
             File _ \<Rightarrow> Inl (''ENOTDIR: not a directory, open '' @ apos @ dest @ apos)
           | Directory \<Rightarrow>
               (if (case map_of fs dest of None \<Rightarrow> False | Some old \<Rightarrow> fe_node old = Directory)
                then Inl (''EISDIR: illegal operation on a directory, open '' @ apos @ dest @ apos)
                else Inr (AList.update dest e fs))))"

definition copyFileSync :: "int \<Rightarrow> FS \<Rightarrow> string \<Rightarrow> string \<Rightarrow> string + FS" where
  "copyFileSync now fs src dest =
     (case map_of fs src of
        None \<Rightarrow> Inl (''ENOENT: no such file or directory, copyfile '' @ apos @ src @ apos)
      | Some e \<Rightarrow>
          (case fe_node e of
             Directory \<Rightarrow> Inl ''EISDIR: illegal operation on a directory, copyfile''
           | File c \<Rightarrow>
               writeEntry fs dest \<lparr> fe_node = File c, fe_size = fe_size e, fe_mtimeMs = now \<rparr>))"

text \<open>
  What the process gets from outside the repository: the \<^verbatim>\<open>glob\<close> library, the MD5 and
  SHA-256 digests of Node's \<^verbatim>\<open>crypto\<close> (as hexadecimal strings), the length of the text
  \<^verbatim>\<open>JSON.stringify\<close> produces for a cache entry, the clock and the working directory.
\<close>

record Runtime =
  rt_glob :: "FS \<Rightarrow> string \<Rightarrow> string list"
  rt_md5 :: "content \<Rightarrow> string"
  rt_sha256 :: "string \<Rightarrow> string"
  rt_jsonLength :: "CacheEntry \<Rightarrow> nat"
  rt_now :: int
  rt_cwd :: string

section \<open>The font processor (font-processor.ts)\<close>

record FontProcessor =
  fp_options :: ModuleOptions
  fp_projectRoot :: string
  fp_outputDir :: string

definition newFontProcessor :: "ModuleOptions \<Rightarrow> string \<Rightarrow> FontProcessor" where
  "newFontProcessor options projectRoot =
     \<lparr> fp_options = options, fp_projectRoot = projectRoot,
       fp_outputDir = join projectRoot (orElse (opt_outputDir options) ''public/fonts'') \<rparr>"

subsection \<open>resolvePackagePath\<close>

definition possiblePaths :: "string \<Rightarrow> string \<Rightarrow> string list" where
  "possiblePaths projectRoot packageName =
     [ joinWith ''/'' [projectRoot, ''node_modules'', packageName],
       joinWith ''/'' [projectRoot, ''node_modules'', ''.pnpm'', packageName @ ''@*'',
                       ''node_modules'', packageName] ]
     @ (if startsWith packageName ''@''
        then [ joinWith ''/'' [projectRoot, ''node_modules'', ''.pnpm'',
                               replaceFirst packageName ''/'' ''+'' @ ''@*'',
                               ''node_modules'', packageName] ]
        else [])"

fun resolveLoop :: "Runtime \<Rightarrow> FS \<Rightarrow> string list \<Rightarrow> string option" where
  "resolveLoop rt fs [] = None"
| "resolveLoop rt fs (p # ps) =
     (if existsSync fs p then Some p
      else if includesStr p ''*'' \<and> rt_glob rt fs p \<noteq> []
           then Some (last (sort (rt_glob rt fs p)))
           else resolveLoop rt fs ps)"

definition resolvePackagePath :: "Runtime \<Rightarrow> FontProcessor \<Rightarrow> FS \<Rightarrow> string \<Rightarrow> string option" where
  "resolvePackagePath rt fp fs packageName =
     resolveLoop rt fs (possiblePaths (fp_projectRoot fp) packageName)"

subsection \<open>readFontMetadata\<close>

definition parseMetadata :: "FS \<Rightarrow> string \<Rightarrow> string + FontMetadata" where
  "parseMetadata fs p =
     (case readFileSync fs p of
        Inl msg \<Rightarrow> Inl msg
      | Inr (Blob _) \<Rightarrow> Inl ''Unexpected token in JSON''
      | Inr (MetadataJson m) \<Rightarrow> Inr m
      | Inr (CacheJson _) \<Rightarrow> Inr emptyMetadata)"

text \<open>\<open>Inr None\<close> is the source's \<^verbatim>\<open>null\<close>: the package has no metadata file.\<close>

definition readFontMetadata :: "FS \<Rightarrow> string \<Rightarrow> FontConfig \<Rightarrow> string + FontMetadata option" where
  "readFontMetadata fs packagePath fontConfig =
     (let metadataPath = join packagePath ''metadata.json'' in
      if \<not> existsSync fs metadataPath then
        (let altPath = join packagePath ''font-metadata.json'' in
         if existsSync fs altPath
         then (case parseMetadata fs altPath of Inl msg \<Rightarrow> Inl msg | Inr m \<Rightarrow> Inr (Some m))
         else Inr None)
      else
        (case parseMetadata fs metadataPath of
           Inl msg \<Rightarrow> Inl msg
         | Inr metadata \<Rightarrow>
             (case cfg_unicodeRanges fontConfig of
                None \<Rightarrow> Inr (Some metadata)
              | Some ranges \<Rightarrow>
                  Inr (Some (metadata\<lparr> md_unicodeRange :=
                               Some (ranges @ orElseList (md_unicodeRange metadata) []) \<rparr>)))))"

subsection \<open>buildFilePatterns\<close>

definition variablePatterns :: "string list \<Rightarrow> string \<Rightarrow> string \<Rightarrow> string list" where
  "variablePatterns axes subsetName style =
     (''*-'' @ subsetName @ ''-'' @ joinWith ''-'' axes @ ''-'' @ style @ ''.woff2'')
     # map (\<lambda>axis. ''*-'' @ subsetName @ ''-'' @ axis @ ''-'' @ style @ ''.woff2'') axes"

definition staticPatterns :: "int list \<Rightarrow> string \<Rightarrow> string \<Rightarrow> string list" where
  "staticPatterns weights subsetName style =
     map (\<lambda>weight. ''*-'' @ subsetName @ ''-'' @ numToString weight @ ''-'' @ style @ ''.woff2'') weights
     @ [''*-'' @ subsetName @ ''-*-'' @ style @ ''.woff2'']"

definition buildFilePatterns ::
  "FontConfig \<Rightarrow> FontMetadata \<Rightarrow> string list \<Rightarrow> string list \<Rightarrow> int list \<Rightarrow> string list" where
  "buildFilePatterns config metadata subsets styles weights =
     (let patterns =
        (if cfg_variable config then
           (let axes = orElseList (cfg_axes config) [''wght''] in
            if includesStr (cfg_package config) ''material-symbols''
            then concat (map (\<lambda>subsetName. concat (map (\<lambda>style.
                   [ ''*-'' @ subsetName @ ''-full-'' @ style @ ''.woff2'',
                     ''*-'' @ subsetName @ ''[*]-'' @ style @ ''.woff2'' ]) styles)) subsets)
            else concat (map (\<lambda>subsetName. concat (map (variablePatterns axes subsetName) styles)) subsets))
         else concat (map (\<lambda>subsetName. concat (map (staticPatterns weights subsetName) styles)) subsets));
          woffPatterns = map (\<lambda>p. replaceFirst p ''.woff2'' ''.woff'') patterns
      in patterns @ woffPatterns)"

subsection \<open>findFontFiles\<close>

definition mkFontFile :: "FileInfo \<Rightarrow> string \<Rightarrow> nat \<Rightarrow> FontFile" where
  "mkFontFile fi filePath sz =
     \<lparr> ff_path = Some filePath, ff_fileName = fi_fileName fi, ff_subset = fi_subset fi,
       ff_style = fi_style fi, ff_weight = fi_weight fi, ff_variable = fi_variable fi,
       ff_url = None, ff_hash = None, ff_size = Some sz \<rparr>"

fun collectFound :: "FS \<Rightarrow> FontConfig \<Rightarrow> string list \<Rightarrow> FontFile list \<Rightarrow> string + FontFile list" where
  "collectFound fs config [] files = Inr files"
| "collectFound fs config (filePath # rest) files =
     (case parseFileName filePath config of
        None \<Rightarrow> collectFound fs config rest files
      | Some fileInfo \<Rightarrow>
          (case map_of fs filePath of
             None \<Rightarrow> Inl (''ENOENT: no such file or directory, stat '' @ apos @ filePath @ apos)
           | Some e \<Rightarrow> collectFound fs config rest (files @ [mkFontFile fileInfo filePath (fe_size e)])))"

definition normSlashes :: "string \<Rightarrow> string" where
  "normSlashes s = map (\<lambda>c. if c = CHR 0x5C then CHR ''/'' else c) s"

fun collectPatterns ::
  "Runtime \<Rightarrow> FS \<Rightarrow> string \<Rightarrow> FontConfig \<Rightarrow> string list \<Rightarrow> FontFile list \<Rightarrow> string + FontFile list" where
  "collectPatterns rt fs filesDir config [] files = Inr files"
| "collectPatterns rt fs filesDir config (pattern # rest) files =
     (case collectFound fs config (rt_glob rt fs (normSlashes (join filesDir pattern))) files of
        Inl msg \<Rightarrow> Inl msg
      | Inr files' \<Rightarrow> collectPatterns rt fs filesDir config rest files')"

text \<open>The comparator of the final sort: latin first, then normal style first.\<close>

definition compareFiles :: "FontFile \<Rightarrow> FontFile \<Rightarrow> int" where
  "compareFiles a b =
     (if ff_subset a = ''latin'' \<and> ff_subset b \<noteq> ''latin'' then - 1
      else if ff_subset a \<noteq> ''latin'' \<and> ff_subset b = ''latin'' then 1
      else if ff_style a = ''normal'' \<and> ff_style b \<noteq> ''normal'' then - 1
      else if ff_style a \<noteq> ''normal'' \<and> ff_style b = ''normal'' then 1
      else 0)"

definition findFontFiles ::
  "Runtime \<Rightarrow> FS \<Rightarrow> string \<Rightarrow> FontConfig \<Rightarrow> FontMetadata \<Rightarrow> string + FontFile list" where
  "findFontFiles rt fs packagePath config metadata =
     (let filesDir = join packagePath ''files'' in
      if \<not> existsSync fs filesDir then Inl (''No files directory found in '' @ packagePath)
      else
        let subsets = orElseList (cfg_subsets config) (orElseList (md_subsets metadata) [''latin'']);
            styles = orElseList (cfg_styles config) (orElseList (md_styles metadata) [''normal'']);
            weights = orElseList (cfg_weights config) (orElseList (md_weights metadata) [400]);
            patterns = buildFilePatterns config metadata subsets styles weights
        in (case collectPatterns rt fs filesDir config patterns [] of
              Inl msg \<Rightarrow> Inl msg
            | Inr files \<Rightarrow> Inr (sortBy compareFiles files)))"

subsection \<open>copyFontFiles\<close>

definition hashedName :: "Runtime \<Rightarrow> string \<Rightarrow> FontFile \<Rightarrow> content \<Rightarrow> string" where
  "hashedName rt family file content =
     (let hash = take 8 (rt_md5 rt content);
          safeFamilyName = replaceSpaces (toLowerCase family)
      in safeFamilyName @ ''-'' @ ff_subset file @ ''-'' @ ff_style file @ ''-'' @ hash
         @ extname (ff_fileName file))"

text \<open>
  The loop returns the file system it leaves behind together with its result, because the
  copies made before a failure stay on disk.
\<close>

fun copyLoop ::
  "Runtime \<Rightarrow> FontProcessor \<Rightarrow> string option \<Rightarrow> FS \<Rightarrow> FontFile list \<Rightarrow> FontFile list
     \<Rightarrow> FS \<times> (string + FontFile list)" where
  "copyLoop rt fp family fs [] copiedFiles = (fs, Inr copiedFiles)"
| "copyLoop rt fp family fs (file # rest) copiedFiles =
     (case ff_path file of
        None \<Rightarrow> (fs, Inl ''The path argument must be of type string'')
      | Some path \<Rightarrow>
          (case readFileSync fs path of
             Inl msg \<Rightarrow> (fs, Inl msg)
           | Inr content \<Rightarrow>
               (case family of
                  None \<Rightarrow> (fs, Inl ''Cannot read properties of undefined (reading toLowerCase)'')
                | Some fam \<Rightarrow>
                    let name = hashedName rt fam file content;
                        destPath = join (fp_outputDir fp) name
                    in (case copyFileSync (rt_now rt) fs path destPath of
                          Inl msg \<Rightarrow> (fs, Inl msg)
                        | Inr fs' \<Rightarrow>
                            copyLoop rt fp family fs' rest
                              (copiedFiles @
                                 [file\<lparr> ff_url := Some (''/fonts/'' @ name),
                                        ff_hash := Some (take 8 (rt_md5 rt content)) \<rparr>])))))"

definition copyFontFiles ::
  "Runtime \<Rightarrow> FontProcessor \<Rightarrow> FS \<Rightarrow> FontFile list \<Rightarrow> string option
     \<Rightarrow> FS \<times> (string + FontFile list)" where
  "copyFontFiles rt fp fs files family = copyLoop rt fp family fs files []"

subsection \<open>processFont and processAll\<close>

definition processFont ::
  "Runtime \<Rightarrow> FontProcessor \<Rightarrow> FS \<Rightarrow> FontConfig \<Rightarrow> FS \<times> (string + ProcessedFont)" where
  "processFont rt fp fs fontConfig =
     (case resolvePackagePath rt fp fs (cfg_package fontConfig) of
        None \<Rightarrow>
          (fs, Inl (''Package '' @ cfg_package fontConfig @ '' not found. ''
                    @ ''Please install it with: npm install '' @ cfg_package fontConfig))
      | Some packagePath \<Rightarrow>
          (case readFontMetadata fs packagePath fontConfig of
             Inl msg \<Rightarrow> (fs, Inl msg)
           | Inr None \<Rightarrow> (fs, Inl (''No metadata found for '' @ cfg_package fontConfig))
           | Inr (Some metadata) \<Rightarrow>
               (case findFontFiles rt fs packagePath fontConfig metadata of
                  Inl msg \<Rightarrow> (fs, Inl msg)
                | Inr fontFiles \<Rightarrow>
                    if length fontFiles = 0
                    then (fs, Inl (''No font files found for '' @ cfg_package fontConfig
                                   @ '' with the specified configuration. ''
                                   @ ''Check your subsets, styles, and axes settings.''))
                    else
                      (case copyFontFiles rt fp fs fontFiles (md_family metadata) of
                         (fs', Inl msg) \<Rightarrow> (fs', Inl msg)
                       | (fs', Inr copiedFiles) \<Rightarrow>
                           (fs', Inr \<lparr> pf_config = fontConfig, pf_metadata = metadata,
                                       pf_files = copiedFiles, pf_errors = [] \<rparr>)))))"

definition priorityOf :: "FontConfig \<Rightarrow> int" where
  "priorityOf c = (case cfg_priority c of None \<Rightarrow> 0 | Some p \<Rightarrow> p)"

definition comparePriority :: "FontConfig \<Rightarrow> FontConfig \<Rightarrow> int" where
  "comparePriority a b = priorityOf b - priorityOf a"

definition failedEntry :: "FontConfig \<Rightarrow> string \<Rightarrow> ProcessedFont" where
  "failedEntry fontConfig msg =
     \<lparr> pf_config = fontConfig, pf_metadata = emptyMetadata, pf_files = [], pf_errors = [msg] \<rparr>"

fun processLoop ::
  "Runtime \<Rightarrow> FontProcessor \<Rightarrow> FS \<Rightarrow> FontConfig list \<Rightarrow> ProcessedFont list
     \<Rightarrow> FS \<times> ProcessedFont list" where
  "processLoop rt fp fs [] processedFonts = (fs, processedFonts)"
| "processLoop rt fp fs (fontConfig # rest) processedFonts =
     (case processFont rt fp fs fontConfig of
        (fs', Inr result) \<Rightarrow> processLoop rt fp fs' rest (processedFonts @ [result])
      | (fs', Inl msg) \<Rightarrow> processLoop rt fp fs' rest (processedFonts @ [failedEntry fontConfig msg]))"

definition processAll :: "Runtime \<Rightarrow> FontProcessor \<Rightarrow> FS \<Rightarrow> FS \<times> ProcessedFont list" where
  "processAll rt fp fs =
     processLoop rt fp fs (sortBy comparePriority (opt_fonts (fp_options fp))) []"

subsection \<open>Stylesheet: the face declarations\<close>

definition builtinRanges :: "(string \<times> string) list" where
  "builtinRanges =
     [ (''latin'', ''U+0000-00FF, U+0131, U+0152-0153, U+02BB-02BC, U+02C6, U+02DA, U+02DC, U+0304, U+0308, U+0329, U+2000-206F, U+2074, U+20AC, U+2122, U+2191, U+2193, U+2212, U+2215, U+FEFF, U+FFFD''),
       (''latin-ext'', ''U+0100-02AF, U+0304, U+0308, U+0329, U+1E00-1E9F, U+1EF2-1EFF, U+2020, U+20A0-20AB, U+20AD-20C0, U+2113, U+2C60-2C7F, U+A720-A7FF''),
       (''cyrillic'', ''U+0301, U+0400-045F, U+0490-0491, U+04B0-04B1, U+2116''),
       (''cyrillic-ext'', ''U+0460-052F, U+1C80-1C88, U+20B4, U+2DE0-2DFF, U+A640-A69F, U+FE2E-FE2F''),
       (''greek'', ''U+0370-0377, U+037A-037F, U+0384-038A, U+038C, U+038E-03A1, U+03A3-03FF''),
       (''greek-ext'', ''U+1F00-1FFF''),
       (''vietnamese'', ''U+0102-0103, U+0110-0111, U+0128-0129, U+0168-0169, U+01A0-01A1, U+01AF-01B0, U+0300-0301, U+0303-0304, U+0308-0309, U+0323, U+0329, U+1EA0-1EF9, U+20AB''),
       (''arabic'', ''U+0600-06FF, U+200C-200E, U+2010-2011, U+204F, U+2E41, U+FB50-FDFF, U+FE80-FEFC''),
       (''hebrew'', ''U+0590-05FF, U+200C-2010, U+20AA, U+25CC, U+FB1D-FB4F''),
       (''thai'', ''U+0E01-0E5B, U+200C-200D, U+2013-2014, U+2018-2019, U+201C-201D, U+2022, U+2026, U+2039-203A, U+2060, U+2066-2069, U+207F, U+20A8, U+2219, U+25CC'') ]"

definition getUnicodeRange :: "FontMetadata \<Rightarrow> string \<Rightarrow> string option" where
  "getUnicodeRange metadata subsetName =
     (let own = (case md_unicodeRange metadata of None \<Rightarrow> None | Some rs \<Rightarrow> map_of rs subsetName) in
      if truthyStr own then own
      else (let r = map_of builtinRanges subsetName in if truthyStr r then r else None))"

definition generateSingleFontFace :: "ModuleOptions \<Rightarrow> ProcessedFont \<Rightarrow> FontFile \<Rightarrow> string" where
  "generateSingleFontFace options font file =
     (let config = pf_config font;
          metadata = pf_metadata font;
          display = orElse (cfg_display config) (orElse (opt_display options) ''swap'');
          isIcon = (includesStr (cfg_package config) ''icon''
                    \<or> includesStr (cfg_package config) ''symbols'');
          wght = (if cfg_variable config
                  then (case md_axes metadata of None \<Rightarrow> None | Some axes \<Rightarrow> map_of axes ''wght'')
                  else None);
          format = (if endsWith (ff_fileName file) ''.woff2'' then ''woff2'' else ''woff'');
          formatHint = (if cfg_variable config then format @ ''-variations'' else format)
      in ''@font-face {'' @ nl
         @ ''  font-family: '' @ apos @ showOpt (md_family metadata) @ apos @ '';'' @ nl
         @ ''  font-style: '' @ ff_style file @ '';'' @ nl
         @ ''  font-display: '' @ (if isIcon then ''block'' else display) @ '';'' @ nl
         @ (case wght of
              Some r \<Rightarrow> ''  font-weight: '' @ numToString (ax_min r) @ '' ''
                          @ numToString (ax_max r) @ '';'' @ nl
            | None \<Rightarrow>
                (case ff_weight file of
                   None \<Rightarrow> ''  font-weight: 400;'' @ nl
                 | Some w \<Rightarrow> if w \<noteq> 0 then ''  font-weight: '' @ numToString w @ '';'' @ nl
                              else ''  font-weight: 400;'' @ nl))
         @ ''  src: url('' @ apos @ showOpt (ff_url file) @ apos @ '') format('' @ apos
         @ formatHint @ apos @ '');'' @ nl
         @ (case getUnicodeRange metadata (ff_subset file) of
              None \<Rightarrow> []
            | Some r \<Rightarrow> ''  unicode-range: '' @ r @ '';'' @ nl)
         @ ''}'' @ nl @ nl)"

text \<open>
  The fallback face reads \<^verbatim>\<open>metadata.family\<close>; on a font without a family name the lookup's
  \<^verbatim>\<open>family.toLowerCase()\<close> throws unless the table knows the name, which it never does.
\<close>

definition generateFallbackFont :: "ProcessedFont \<Rightarrow> string + string" where
  "generateFallbackFont font =
     (case md_family (pf_metadata font) of
        None \<Rightarrow> Inl ''Cannot read properties of undefined (reading toLowerCase)''
      | Some family \<Rightarrow>
          let metrics = getFallbackMetrics family (cfg_fallback (pf_config font)) in
          Inr (''/* Fallback font for '' @ family @ '' */'' @ nl
               @ ''@font-face {'' @ nl
               @ ''  font-family: '' @ apos @ family @ '' Fallback'' @ apos @ '';'' @ nl
               @ ''  src: local('' @ apos @ fallback metrics @ apos @ '');'' @ nl
               @ ''  size-adjust: '' @ sizeAdjust metrics @ '';'' @ nl
               @ ''  ascent-override: '' @ ascentOverride metrics @ '';'' @ nl
               @ ''  descent-override: '' @ descentOverride metrics @ '';'' @ nl
               @ ''  line-gap-override: '' @ lineGapOverride metrics @ '';'' @ nl
               @ ''}'' @ nl @ nl))"

fun fontFacesLoop :: "ModuleOptions \<Rightarrow> ProcessedFont list \<Rightarrow> string \<Rightarrow> string + string" where
  "fontFacesLoop options [] css = Inr css"
| "fontFacesLoop options (font # rest) css =
     (if pf_errors font \<noteq> [] then
        fontFacesLoop options rest
          (css @ ''/* Error processing '' @ cfg_family (pf_config font) @ '': ''
               @ joinWith '', '' (pf_errors font) @ '' */'' @ nl @ nl)
      else
        let css1 = css @ ''/* '' @ showOpt (md_family (pf_metadata font)) @ '' - ''
                       @ cfg_package (pf_config font) @ '' */'' @ nl
                       @ concat (map (generateSingleFontFace options font) (pf_files font))
        in if opt_fallbacks options \<and> cfg_variable (pf_config font)
           then (case generateFallbackFont font of
                   Inl msg \<Rightarrow> Inl msg
                 | Inr fb \<Rightarrow> fontFacesLoop options rest (css1 @ fb @ nl))
           else fontFacesLoop options rest (css1 @ nl))"

definition generateFontFaces :: "ModuleOptions \<Rightarrow> ProcessedFont list \<Rightarrow> string + string" where
  "generateFontFaces options results = fontFacesLoop options results []"

section \<open>The cache manager (cache-manager.ts)\<close>

record CacheManager =
  cm_cacheDir :: string
  cm_cacheFile :: string
  cm_ttl :: int
  cm_moduleVersion :: string

text \<open>
  The constructor also creates the cache directory (\<^verbatim>\<open>mkdirSync\<close>, recursive); the model
  adds the directory entry when the path is free.
\<close>

definition newCacheManager :: "Runtime \<Rightarrow> FS \<Rightarrow> string \<Rightarrow> int \<Rightarrow> CacheManager \<times> FS" where
  "newCacheManager rt fs projectRoot ttl =
     (let cacheDir = joinWith ''/'' [projectRoot, ''.nuxt'', ''variable-fonts-cache''] in
      (\<lparr> cm_cacheDir = cacheDir, cm_cacheFile = join cacheDir ''cache.json'', cm_ttl = ttl,
         cm_moduleVersion = ''1.0.0'' \<rparr>,
       if existsSync fs cacheDir then fs
       else fs @ [(cacheDir, \<lparr> fe_node = Directory, fe_size = 0, fe_mtimeMs = rt_now rt \<rparr>)]))"

subsection \<open>generateConfigHash\<close>

definition hexDigit :: "nat \<Rightarrow> char" where
  "hexDigit n = (if n < 10 then char_of (48 + n) else char_of (87 + n))"

definition dquote :: string where
  "dquote = [CHR 0x22]"

definition backslash :: string where
  "backslash = [CHR 0x5C]"

text \<open>\<^verbatim>\<open>JSON.stringify\<close> on strings, booleans, integers, arrays and objects.\<close>

definition jsonEscapeChar :: "char \<Rightarrow> string" where
  "jsonEscapeChar c =
     (let n = (of_char c :: nat) in
      if c = CHR 0x22 then backslash @ dquote
      else if c = CHR 0x5C then backslash @ backslash
      else if c = CHR 0x08 then backslash @ ''b''
      else if c = CHR 0x0C then backslash @ ''f''
      else if c = CHR 0x0A then backslash @ ''n''
      else if c = CHR 0x0D then backslash @ ''r''
      else if c = CHR 0x09 then backslash @ ''t''
      else if n < 32 then backslash @ ''u00'' @ [hexDigit (n div 16), hexDigit (n mod 16)]
      else [c])"

definition jsonString :: "string \<Rightarrow> string" where
  "jsonString s = dquote @ concat (map jsonEscapeChar s) @ dquote"

definition jsonBool :: "bool \<Rightarrow> string" where
  "jsonBool b = (if b then ''true'' else ''false'')"

definition jsonArray :: "string list \<Rightarrow> string" where
  "jsonArray xs = ''['' @ joinWith '','' xs @ '']''"

text \<open>A property whose value is \<^verbatim>\<open>undefined\<close> is left out of the object.\<close>

definition jsonField :: "string \<Rightarrow> string option \<Rightarrow> string list" where
  "jsonField k v = (case v of None \<Rightarrow> [] | Some t \<Rightarrow> [jsonString k @ '':'' @ t])"

definition jsonObject :: "string list list \<Rightarrow> string" where
  "jsonObject fs = ''{'' @ joinWith '','' (concat fs) @ ''}''"

record ConfigData =
  cd_package :: string
  cd_family :: string
  cd_variable :: bool
  cd_weights :: "int list option"
  cd_styles :: "string list option"
  cd_subsets :: "string list option"
  cd_axes :: "string list option"
  cd_preload :: "bool option"
  cd_display :: "string option"
  cd_priority :: "int option"

definition jsSortNums :: "int list \<Rightarrow> int list" where
  "jsSortNums xs = sortBy (defaultCompare numToString) xs"

definition jsSortStrs :: "string list \<Rightarrow> string list" where
  "jsSortStrs xs = sortBy (defaultCompare (\<lambda>s. s)) xs"

definition normalizeFont :: "FontConfig \<Rightarrow> ConfigData" where
  "normalizeFont font =
     \<lparr> cd_package = cfg_package font, cd_family = cfg_family font,
       cd_variable = cfg_variable font,
       cd_weights = map_option jsSortNums (cfg_weights font),
       cd_styles = map_option jsSortStrs (cfg_styles font),
       cd_subsets = map_option jsSortStrs (cfg_subsets font),
       cd_axes = map_option jsSortStrs (cfg_axes font),
       cd_preload = cfg_preload font, cd_display = cfg_display font,
       cd_priority = cfg_priority font \<rparr>"

text \<open>\<^verbatim>\<open>sort()\<close> works in place: the caller's request arrays are left sorted.\<close>

definition sortedInPlace :: "FontConfig \<Rightarrow> FontConfig" where
  "sortedInPlace font =
     font\<lparr> cfg_weights := map_option jsSortNums (cfg_weights font),
           cfg_styles := map_option jsSortStrs (cfg_styles font),
           cfg_subsets := map_option jsSortStrs (cfg_subsets font),
           cfg_axes := map_option jsSortStrs (cfg_axes font) \<rparr>"

definition jsonConfigData :: "ConfigData \<Rightarrow> string" where
  "jsonConfigData d =
     jsonObject
       [ jsonField ''package'' (Some (jsonString (cd_package d))),
         jsonField ''family'' (Some (jsonString (cd_family d))),
         jsonField ''variable'' (Some (jsonBool (cd_variable d))),
         jsonField ''weights'' (map_option (\<lambda>ws. jsonArray (map numToString ws)) (cd_weights d)),
         jsonField ''styles'' (map_option (\<lambda>ss. jsonArray (map jsonString ss)) (cd_styles d)),
         jsonField ''subsets'' (map_option (\<lambda>ss. jsonArray (map jsonString ss)) (cd_subsets d)),
         jsonField ''axes'' (map_option (\<lambda>ss. jsonArray (map jsonString ss)) (cd_axes d)),
         jsonField ''preload'' (map_option jsonBool (cd_preload d)),
         jsonField ''display'' (map_option jsonString (cd_display d)),
         jsonField ''priority'' (map_option numToString (cd_priority d)) ]"

definition comparePackage :: "(string \<Rightarrow> 'k::linorder) \<Rightarrow> ConfigData \<Rightarrow> ConfigData \<Rightarrow> int" where
  "comparePackage collKey a b = localeCompare collKey (cd_package a) (cd_package b)"

text \<open>The text that is hashed: the normalised requests, sorted by package, as JSON.\<close>

definition configString :: "(string \<Rightarrow> 'k::linorder) \<Rightarrow> FontConfig list \<Rightarrow> string" where
  "configString collKey fonts =
     jsonArray (map jsonConfigData (sortBy (comparePackage collKey) (map normalizeFont fonts)))"

text \<open>The hash, and the request list as the in-place sorts leave it.\<close>

definition generateConfigHash ::
  "Runtime \<Rightarrow> (string \<Rightarrow> 'k::linorder) \<Rightarrow> FontConfig list \<Rightarrow> string \<times> FontConfig list" where
  "generateConfigHash rt collKey fonts =
     (rt_sha256 rt (configString collKey fonts), map sortedInPlace fonts)"

subsection \<open>checkFilesModified\<close>

text \<open>
  A path below the working directory, as \<^verbatim>\<open>path.join(process.cwd(), ...)\<close> builds it and as
  the system calls read a relative path. The root directory already ends in the
  separator.
\<close>

definition underCwd :: "Runtime \<Rightarrow> string \<Rightarrow> string" where
  "underCwd rt rest = (if rt_cwd rt = ''/'' then ''/'' @ rest else join (rt_cwd rt) rest)"

definition resolvePath :: "Runtime \<Rightarrow> string \<Rightarrow> string" where
  "resolvePath rt p = (if startsWith p ''/'' then p else underCwd rt p)"

definition getMetadataPath :: "Runtime \<Rightarrow> FS \<Rightarrow> string \<Rightarrow> string option" where
  "getMetadataPath rt fs packageName =
     (let p1 = underCwd rt (joinWith ''/'' [''node_modules'', packageName, ''metadata.json'']);
          p2 = underCwd rt (joinWith ''/'' [''node_modules'', packageName, ''package.json''])
      in if existsSync fs p1 then Some p1 else if existsSync fs p2 then Some p2 else None)"

definition getCacheTimestamp :: "CacheManager \<Rightarrow> FS \<Rightarrow> int" where
  "getCacheTimestamp cm fs =
     (case map_of fs (cm_cacheFile cm) of None \<Rightarrow> 0 | Some e \<Rightarrow> fe_mtimeMs e)"

definition fileMissing :: "Runtime \<Rightarrow> FS \<Rightarrow> FontFile \<Rightarrow> bool" where
  "fileMissing rt fs file \<longleftrightarrow>
     (case ff_path file of
        None \<Rightarrow> False
      | Some p \<Rightarrow> p \<noteq> [] \<and> \<not> existsSync fs (resolvePath rt p))"

definition packageModified :: "Runtime \<Rightarrow> CacheManager \<Rightarrow> FS \<Rightarrow> ProcessedFont \<Rightarrow> bool" where
  "packageModified rt cm fs font \<longleftrightarrow>
     (case getMetadataPath rt fs (cfg_package (pf_config font)) of
        None \<Rightarrow> False
      | Some metadataPath \<Rightarrow>
          (case map_of fs metadataPath of
             None \<Rightarrow> False
           | Some e \<Rightarrow> fe_mtimeMs e > getCacheTimestamp cm fs + 1000))"

fun checkFilesModified :: "Runtime \<Rightarrow> CacheManager \<Rightarrow> FS \<Rightarrow> ProcessedFont list \<Rightarrow> bool" where
  "checkFilesModified rt cm fs [] = False"
| "checkFilesModified rt cm fs (font # rest) =
     (if pf_errors font \<noteq> [] then checkFilesModified rt cm fs rest
      else if packageModified rt cm fs font then True
      else if list_ex (fileMissing rt fs) (pf_files font) then True
      else checkFilesModified rt cm fs rest)"

subsection \<open>isCacheValid and updateCache\<close>

text \<open>
  Every exception inside \<^verbatim>\<open>isCacheValid\<close> is caught and answered with \<^verbatim>\<open>false\<close>: a cache
  file that cannot be read or is no JSON. A JSON file of another shape has no
  \<^verbatim>\<open>version\<close> property and fails the version check. The second component is the request
  list as the call leaves it.
\<close>

definition isCacheValid ::
  "Runtime \<Rightarrow> (string \<Rightarrow> 'k::linorder) \<Rightarrow> CacheManager \<Rightarrow> FS \<Rightarrow> FontConfig list
     \<Rightarrow> bool \<times> FontConfig list" where
  "isCacheValid rt collKey cm fs fonts =
     (if \<not> existsSync fs (cm_cacheFile cm) then (False, fonts)
      else
        (case readFileSync fs (cm_cacheFile cm) of
           Inr (CacheJson cache) \<Rightarrow>
             if ce_version cache \<noteq> cm_moduleVersion cm then (False, fonts)
             else if rt_now rt - ce_timestamp cache > cm_ttl cm then (False, fonts)
             else
               (case generateConfigHash rt collKey fonts of
                  (currentHash, fonts') \<Rightarrow>
                    if currentHash \<noteq> ce_configHash cache then (False, fonts')
                    else if checkFilesModified rt cm fs (ce_fonts cache) then (False, fonts')
                    else (True, fonts'))
         | _ \<Rightarrow> (False, fonts)))"

definition makeRelativePath :: "Runtime \<Rightarrow> string \<Rightarrow> string" where
  "makeRelativePath rt absolutePath =
     (let projectRoot = rt_cwd rt in
      if startsWith absolutePath projectRoot then drop (length projectRoot + 1) absolutePath
      else absolutePath)"

definition sanitizeFile :: "Runtime \<Rightarrow> FontFile \<Rightarrow> FontFile" where
  "sanitizeFile rt file =
     file\<lparr> ff_path := (case ff_path file of
                          None \<Rightarrow> None
                        | Some p \<Rightarrow> if p = [] then None else Some (makeRelativePath rt p)) \<rparr>"

definition sanitizeResults :: "Runtime \<Rightarrow> ProcessedFont list \<Rightarrow> ProcessedFont list" where
  "sanitizeResults rt results =
     map (\<lambda>result. result\<lparr> pf_files := map (sanitizeFile rt) (pf_files result) \<rparr>) results"

text \<open>
  A failed write is logged and otherwise ignored: the file system stays as it was.
\<close>

definition updateCache ::
  "Runtime \<Rightarrow> (string \<Rightarrow> 'k::linorder) \<Rightarrow> CacheManager \<Rightarrow> FS \<Rightarrow> FontConfig list
     \<Rightarrow> ProcessedFont list \<Rightarrow> FS \<times> FontConfig list" where
  "updateCache rt collKey cm fs fonts results =
     (case generateConfigHash rt collKey fonts of
        (h, fonts') \<Rightarrow>
          let cache = \<lparr> ce_timestamp = rt_now rt, ce_configHash = h,
                        ce_fonts = sanitizeResults rt results,
                        ce_version = cm_moduleVersion cm \<rparr>
          in (case writeEntry fs (cm_cacheFile cm)
                     \<lparr> fe_node = File (CacheJson cache), fe_size = rt_jsonLength rt cache,
                       fe_mtimeMs = rt_now rt \<rparr> of
                Inl msg \<Rightarrow> (fs, fonts')
              | Inr fs' \<Rightarrow> (fs', fonts')))"

section \<open>Notions used in the statements\<close>

text \<open>
  The bytes a resolved file has on disk, the record a file is published as, and the
  condition that no source file lies inside the output directory (so that publishing one
  file cannot overwrite the source of another).
\<close>

definition sourceBytes :: "FS \<Rightarrow> FontFile \<Rightarrow> content option" where
  "sourceBytes fs f =
     (case ff_path f of
        None \<Rightarrow> None
      | Some p \<Rightarrow> (case readFileSync fs p of Inl _ \<Rightarrow> None | Inr c \<Rightarrow> Some c))"

definition publishAs :: "Runtime \<Rightarrow> string \<Rightarrow> content \<Rightarrow> FontFile \<Rightarrow> FontFile" where
  "publishAs rt fam c f =
     f\<lparr> ff_url := Some (''/fonts/'' @ hashedName rt fam f c),
        ff_hash := Some (take 8 (rt_md5 rt c)) \<rparr>"

definition outsideOutput :: "FontProcessor \<Rightarrow> FontFile list \<Rightarrow> bool" where
  "outsideOutput fp files \<longleftrightarrow>
     (\<forall>f\<in>set files.
        case ff_path f of None \<Rightarrow> True | Some p \<Rightarrow> \<not> startsWith p (fp_outputDir fp @ ''/''))"


text \<open>
  The rank that the comparator of \<^verbatim>\<open>findFontFiles\<close> induces: latin before other subsets,
  then normal before other styles.
\<close>

definition fileRank :: "FontFile \<Rightarrow> nat" where
  "fileRank f = (if ff_subset f = ''latin'' then 0 else 2) + (if ff_style f = ''normal'' then 0 else 1)"

text \<open>
  Two requests that agree on every scalar property and, for each array-valued property,
  on the elements with their multiplicities: one is the other with its arrays reordered.
\<close>

definition sameUpToArrayOrder :: "FontConfig \<Rightarrow> FontConfig \<Rightarrow> bool" where
  "sameUpToArrayOrder a b \<longleftrightarrow>
     cfg_package a = cfg_package b \<and> cfg_family a = cfg_family b
     \<and> cfg_variable a = cfg_variable b \<and> cfg_preload a = cfg_preload b
     \<and> cfg_fallback a = cfg_fallback b \<and> cfg_display a = cfg_display b
     \<and> cfg_unicodeRanges a = cfg_unicodeRanges b \<and> cfg_priority a = cfg_priority b
     \<and> map_option mset (cfg_weights a) = map_option mset (cfg_weights b)
     \<and> map_option mset (cfg_styles a) = map_option mset (cfg_styles b)
     \<and> map_option mset (cfg_subsets a) = map_option mset (cfg_subsets b)
     \<and> map_option mset (cfg_axes a) = map_option mset (cfg_axes b)"

text \<open>
  The cache file can be written: its directory exists and its path is not a directory.
\<close>

definition cacheWritable :: "CacheManager \<Rightarrow> FS \<Rightarrow> bool" where
  "cacheWritable cm fs \<longleftrightarrow>
     (case map_of fs (dirname (cm_cacheFile cm)) of None \<Rightarrow> False | Some d \<Rightarrow> fe_node d = Directory)
     \<and> (case map_of fs (cm_cacheFile cm) of None \<Rightarrow> True | Some old \<Rightarrow> fe_node old \<noteq> Directory)"

text \<open>
  The source paths that a result list records, those of the entries without errors; and
  a file system on which nothing was modified after the time \<open>t\<close>.
\<close>

definition recordedSources :: "ProcessedFont list \<Rightarrow> string list" where
  "recordedSources results =
     concat (map (\<lambda>font. if pf_errors font = [] then List.map_filter ff_path (pf_files font) else [])
                 results)"

definition unmodifiedSince :: "int \<Rightarrow> FS \<Rightarrow> bool" where
  "unmodifiedSince t fs \<longleftrightarrow> (\<forall>pe\<in>set fs. fe_mtimeMs (snd pe) \<le> t)"

text \<open>
  \<^verbatim>\<open>makeRelativePath\<close> cuts a path that begins with the text of the working directory after
  that many characters and one more. For an absolute path the cut takes off the
  directory and its separator, and nothing else, when the path does not begin with that
  text at all, or when the working directory is not the root and the path goes on with
  exactly one separator.
\<close>

definition cutAtSeparator :: "string \<Rightarrow> string \<Rightarrow> bool" where
  "cutAtSeparator cwd p \<longleftrightarrow>
     startsWith p ''/''
     \<and> (startsWith p cwd \<longrightarrow>
          cwd \<noteq> ''/'' \<and> startsWith p (cwd @ ''/'') \<and> \<not> startsWith p (cwd @ ''//''))"

text \<open>
  Two requests that agree on every property that enters the configuration hash: the
  scalar ones, and the array-valued ones up to the order of their elements. The custom
  fallback and the custom unicode ranges do not enter the hash.
\<close>

definition sameHashedFields :: "FontConfig \<Rightarrow> FontConfig \<Rightarrow> bool" where
  "sameHashedFields a b \<longleftrightarrow>
     cfg_package a = cfg_package b \<and> cfg_family a = cfg_family b
     \<and> cfg_variable a = cfg_variable b \<and> cfg_preload a = cfg_preload b
     \<and> cfg_display a = cfg_display b \<and> cfg_priority a = cfg_priority b
     \<and> map_option mset (cfg_weights a) = map_option mset (cfg_weights b)
     \<and> map_option mset (cfg_styles a) = map_option mset (cfg_styles b)
     \<and> map_option mset (cfg_subsets a) = map_option mset (cfg_subsets b)
     \<and> map_option mset (cfg_axes a) = map_option mset (cfg_axes b)"

section \<open>Reading the configuration text back\<close>

text \<open>
  Auxiliary notions for showing that the hashed text determines the normalised requests:
  the value of a hexadecimal digit, reading one escaped character, a text that ends a
  numeral, the elements of an array after the first, an optional property with its comma,
  and the text of an object from each optional property on.
\<close>

definition hexVal :: "char \<Rightarrow> nat" where
  "hexVal c = (let n = (of_char c :: nat) in if n < 58 then n - 48 else n - 87)"

definition unescape1 :: "string \<Rightarrow> (char \<times> string) option" where
  "unescape1 s =
     (case s of
        [] \<Rightarrow> None
      | a # rest \<Rightarrow>
          if a \<noteq> CHR 0x5C then Some (a, rest)
          else (case rest of
                  [] \<Rightarrow> None
                | b # rest' \<Rightarrow>
                    if b = CHR 0x22 then Some (CHR 0x22, rest')
                    else if b = CHR 0x5C then Some (CHR 0x5C, rest')
                    else if b = CHR ''b'' then Some (CHR 0x08, rest')
                    else if b = CHR ''f'' then Some (CHR 0x0C, rest')
                    else if b = CHR ''n'' then Some (CHR 0x0A, rest')
                    else if b = CHR ''r'' then Some (CHR 0x0D, rest')
                    else if b = CHR ''t'' then Some (CHR 0x09, rest')
                    else (case rest' of
                            z1 # z2 # h1 # h2 # r \<Rightarrow> Some (char_of (16 * hexVal h1 + hexVal h2), r)
                          | _ \<Rightarrow> None)))"

definition endsNumber :: "string \<Rightarrow> bool" where
  "endsNumber r \<longleftrightarrow> (case r of [] \<Rightarrow> False | c # _ \<Rightarrow> \<not> isDigit c)"

fun arrayRest :: "string list \<Rightarrow> string" where
  "arrayRest [] = '']''"
| "arrayRest (x # xs) = '','' @ x @ arrayRest xs"

definition optField :: "string \<Rightarrow> string option \<Rightarrow> string" where
  "optField k v = (case v of None \<Rightarrow> [] | Some t \<Rightarrow> '','' @ jsonString k @ '':'' @ t)"

definition tailPriority :: "ConfigData \<Rightarrow> string \<Rightarrow> string" where
  "tailPriority d r = optField ''priority'' (map_option numToString (cd_priority d)) @ ''}'' @ r"

definition tailDisplay :: "ConfigData \<Rightarrow> string \<Rightarrow> string" where
  "tailDisplay d r = optField ''display'' (map_option jsonString (cd_display d)) @ tailPriority d r"

definition tailPreload :: "ConfigData \<Rightarrow> string \<Rightarrow> string" where
  "tailPreload d r = optField ''preload'' (map_option jsonBool (cd_preload d)) @ tailDisplay d r"

definition tailAxes :: "ConfigData \<Rightarrow> string \<Rightarrow> string" where
  "tailAxes d r =
     optField ''axes'' (map_option (\<lambda>ss. jsonArray (map jsonString ss)) (cd_axes d)) @ tailPreload d r"

definition tailSubsets :: "ConfigData \<Rightarrow> string \<Rightarrow> string" where
  "tailSubsets d r =
     optField ''subsets'' (map_option (\<lambda>ss. jsonArray (map jsonString ss)) (cd_subsets d)) @ tailAxes d r"

definition tailStyles :: "ConfigData \<Rightarrow> string \<Rightarrow> string" where
  "tailStyles d r =
     optField ''styles'' (map_option (\<lambda>ss. jsonArray (map jsonString ss)) (cd_styles d)) @ tailSubsets d r"

definition tailWeights :: "ConfigData \<Rightarrow> string \<Rightarrow> string" where
  "tailWeights d r =
     optField ''weights'' (map_option (\<lambda>ws. jsonArray (map numToString ws)) (cd_weights d)) @ tailStyles d r"

text \<open>
  How the text after a property can start: with the closing brace, or with a comma, a
  quote and the first letters of one of the later keys.
\<close>

definition tailStart :: "string list \<Rightarrow> string \<Rightarrow> bool" where
  "tailStart ks s \<longleftrightarrow>
     (\<exists>t. s = CHR ''}'' # t) \<or> (\<exists>k\<in>set ks. \<exists>t. s = CHR '','' # CHR 0x22 # k @ t)"

section \<open>Scenarios\<close>

text \<open>
  The fragment of the \<^verbatim>\<open>glob\<close> pattern language that the scenario's patterns use: literal
  characters and \<^verbatim>\<open>*\<close>, which matches any run of characters within one path segment.
\<close>

fun globMatch :: "string \<Rightarrow> string \<Rightarrow> bool" where
  "globMatch [] s = (s = [])"
| "globMatch (p # ps) s =
     (if p = CHR ''*''
      then globMatch ps s \<or> (case s of [] \<Rightarrow> False | c # cs \<Rightarrow> c \<noteq> CHR ''/'' \<and> globMatch (p # ps) cs)
      else (case s of [] \<Rightarrow> False | c # cs \<Rightarrow> c = p \<and> globMatch ps cs))"

definition simpleGlob :: "FS \<Rightarrow> string \<Rightarrow> string list" where
  "simpleGlob fs pattern = filter (globMatch pattern) (map fst fs)"

text \<open>
  The end-to-end scenario: a project at \<^verbatim>\<open>/app\<close> whose package \<^verbatim>\<open>pkg-a\<close> has a metadata file
  and, in its files directory, exactly the 1000-byte file
  \<^verbatim>\<open>demo-latin-wght-normal.woff2\<close>. The output directory exists, as the module's set-up
  creates it before processing. The module options are the defaults of \<^verbatim>\<open>index.ts\<close>.
\<close>

definition demoRequest :: FontConfig where
  "demoRequest = \<lparr> cfg_package = ''pkg-a'', cfg_family = ''Demo'', cfg_variable = True,
     cfg_preload = None, cfg_weights = Some [400, 700], cfg_styles = Some [''normal''],
     cfg_subsets = Some [''latin''], cfg_axes = Some [''wght''], cfg_fallback = None,
     cfg_display = None, cfg_unicodeRanges = None, cfg_priority = None \<rparr>"

definition missingRequest :: FontConfig where
  "missingRequest = \<lparr> cfg_package = ''pkg-missing'', cfg_family = ''Ghost'', cfg_variable = False,
     cfg_preload = None, cfg_weights = None, cfg_styles = None,
     cfg_subsets = None, cfg_axes = None, cfg_fallback = None,
     cfg_display = None, cfg_unicodeRanges = None, cfg_priority = Some 10 \<rparr>"

definition staticRequest :: FontConfig where
  "staticRequest = \<lparr> cfg_package = ''pkg-s'', cfg_family = ''Roboto'', cfg_variable = False,
     cfg_preload = None, cfg_weights = None, cfg_styles = None, cfg_subsets = None,
     cfg_axes = None, cfg_fallback = None, cfg_display = None, cfg_unicodeRanges = None,
     cfg_priority = None \<rparr>"

definition twinA :: FontConfig where
  "twinA = staticRequest\<lparr> cfg_package := ''pkg-t'', cfg_family := ''Twin A'' \<rparr>"

definition twinB :: FontConfig where
  "twinB = staticRequest\<lparr> cfg_package := ''pkg-t'', cfg_family := ''Twin B'' \<rparr>"

definition demoBlock :: FontConfig where
  "demoBlock = demoRequest\<lparr> cfg_display := Some ''block'' \<rparr>"

definition demoReordered :: FontConfig where
  "demoReordered = demoRequest\<lparr> cfg_weights := Some [700, 400] \<rparr>"

definition demoGeorgia :: FontConfig where
  "demoGeorgia = demoRequest\<lparr> cfg_fallback := Some ''Georgia'' \<rparr>"

definition demoCapitals :: FontConfig where
  "demoCapitals = demoRequest\<lparr> cfg_unicodeRanges := Some [(''latin'', ''U+0041-005A'')] \<rparr>"

definition demoMetadata :: FontMetadata where
  "demoMetadata = \<lparr> md_family = Some ''Demo'', md_subsets = Some [''latin''],
     md_weights = Some [400, 700], md_styles = Some [''normal''],
     md_axes = Some [(''wght'', \<lparr> ax_min = 400, ax_max = 700, ax_default = 400 \<rparr>)],
     md_unicodeRange = None \<rparr>"

definition demoBytes :: string where
  "demoBytes = replicate 1000 (CHR ''w'')"

definition dirEntry :: fentry where
  "dirEntry = \<lparr> fe_node = Directory, fe_size = 0, fe_mtimeMs = 0 \<rparr>"

definition demoFS :: FS where
  "demoFS =
     [ (''/app/node_modules/pkg-a'', dirEntry),
       (''/app/node_modules/pkg-a/metadata.json'',
          \<lparr> fe_node = File (MetadataJson demoMetadata), fe_size = 0, fe_mtimeMs = 0 \<rparr>),
       (''/app/node_modules/pkg-a/files'', dirEntry),
       (''/app/node_modules/pkg-a/files/demo-latin-wght-normal.woff2'',
          \<lparr> fe_node = File (Blob demoBytes), fe_size = 1000, fe_mtimeMs = 0 \<rparr>),
       (''/app/public/fonts'', dirEntry) ]"

definition defaultOptions :: "FontConfig list \<Rightarrow> ModuleOptions" where
  "defaultOptions fs = \<lparr> opt_fonts = fs, opt_outputDir = Some ''public/fonts'',
     opt_display = Some ''swap'', opt_fallbacks = True \<rparr>"

text \<open>
  Digests are not computed in the model. The scenario's run-time answers with the actual
  MD5 of the scenario's font file and the actual SHA-256 of the configuration texts that
  the scenarios hash; \<open>codeUnitKey\<close> collates by code units.
\<close>

definition demoMd5 :: "content \<Rightarrow> string" where
  "demoMd5 c = (case c of Blob s \<Rightarrow> if s = demoBytes then ''67583cbc0955e79057720d3ef1732cfc'' else [] | _ \<Rightarrow> [])"

definition codeUnitKey :: "string \<Rightarrow> string" where
  "codeUnitKey s = s"

definition textDemo :: string where
  "textDemo =
     ''[{'' @ dquote @ ''package'' @ dquote @ '':'' @ dquote @ ''pkg-a'' @ dquote
     @ '','' @ dquote @ ''family'' @ dquote @ '':'' @ dquote @ ''Demo'' @ dquote @ '',''
     @ dquote @ ''variable'' @ dquote @ '':true,'' @ dquote @ ''weights'' @ dquote
     @ '':[400,700],'' @ dquote @ ''styles'' @ dquote @ '':['' @ dquote @ ''normal''
     @ dquote @ ''],'' @ dquote @ ''subsets'' @ dquote @ '':['' @ dquote @ ''latin''
     @ dquote @ ''],'' @ dquote @ ''axes'' @ dquote @ '':['' @ dquote @ ''wght'' @ dquote
     @ '']}]''"

definition textDemoStatic :: string where
  "textDemoStatic =
     ''[{'' @ dquote @ ''package'' @ dquote @ '':'' @ dquote @ ''pkg-a'' @ dquote
     @ '','' @ dquote @ ''family'' @ dquote @ '':'' @ dquote @ ''Demo'' @ dquote @ '',''
     @ dquote @ ''variable'' @ dquote @ '':true,'' @ dquote @ ''weights'' @ dquote
     @ '':[400,700],'' @ dquote @ ''styles'' @ dquote @ '':['' @ dquote @ ''normal''
     @ dquote @ ''],'' @ dquote @ ''subsets'' @ dquote @ '':['' @ dquote @ ''latin''
     @ dquote @ ''],'' @ dquote @ ''axes'' @ dquote @ '':['' @ dquote @ ''wght'' @ dquote
     @ '']},{'' @ dquote @ ''package'' @ dquote @ '':'' @ dquote @ ''pkg-s'' @ dquote
     @ '','' @ dquote @ ''family'' @ dquote @ '':'' @ dquote @ ''Roboto'' @ dquote @ '',''
     @ dquote @ ''variable'' @ dquote @ '':false}]''"

definition textTwinAB :: string where
  "textTwinAB =
     ''[{'' @ dquote @ ''package'' @ dquote @ '':'' @ dquote @ ''pkg-t'' @ dquote
     @ '','' @ dquote @ ''family'' @ dquote @ '':'' @ dquote @ ''Twin A'' @ dquote @ '',''
     @ dquote @ ''variable'' @ dquote @ '':false},{'' @ dquote @ ''package'' @ dquote
     @ '':'' @ dquote @ ''pkg-t'' @ dquote @ '','' @ dquote @ ''family'' @ dquote @ '':''
     @ dquote @ ''Twin B'' @ dquote @ '','' @ dquote @ ''variable'' @ dquote
     @ '':false}]''"

definition textTwinBA :: string where
  "textTwinBA =
     ''[{'' @ dquote @ ''package'' @ dquote @ '':'' @ dquote @ ''pkg-t'' @ dquote
     @ '','' @ dquote @ ''family'' @ dquote @ '':'' @ dquote @ ''Twin B'' @ dquote @ '',''
     @ dquote @ ''variable'' @ dquote @ '':false},{'' @ dquote @ ''package'' @ dquote
     @ '':'' @ dquote @ ''pkg-t'' @ dquote @ '','' @ dquote @ ''family'' @ dquote @ '':''
     @ dquote @ ''Twin A'' @ dquote @ '','' @ dquote @ ''variable'' @ dquote
     @ '':false}]''"

definition textDemoBlock :: string where
  "textDemoBlock =
     ''[{'' @ dquote @ ''package'' @ dquote @ '':'' @ dquote @ ''pkg-a'' @ dquote
     @ '','' @ dquote @ ''family'' @ dquote @ '':'' @ dquote @ ''Demo'' @ dquote @ '',''
     @ dquote @ ''variable'' @ dquote @ '':true,'' @ dquote @ ''weights'' @ dquote
     @ '':[400,700],'' @ dquote @ ''styles'' @ dquote @ '':['' @ dquote @ ''normal''
     @ dquote @ ''],'' @ dquote @ ''subsets'' @ dquote @ '':['' @ dquote @ ''latin''
     @ dquote @ ''],'' @ dquote @ ''axes'' @ dquote @ '':['' @ dquote @ ''wght'' @ dquote
     @ ''],'' @ dquote @ ''display'' @ dquote @ '':'' @ dquote @ ''block'' @ dquote
     @ ''}]''"

definition demoSha256 :: "string \<Rightarrow> string" where
  "demoSha256 s =
     (if s = textDemo
      then ''0086bcc76463e9cc99ae7aeecbdf028b210cefd2a1ca858d1cb019f5e0a25c77''
      else if s = textDemoStatic
      then ''98522113f3565da8c37517bdb7a90fb50cf70764db4a43b8cefbf38f3c2ba782''
      else if s = textDemoBlock
      then ''0b0800d90ce958d2da5200b0addb40cf4048d16e2a1f8e2970eb3116795760b3''
      else if s = textTwinAB
      then ''39266f817ac1b96c77f95bb77a3eab721b651f5ea7e558c066a3f150200a5f43''
      else if s = textTwinBA
      then ''dfc724dc13869242e75bda1b4db6bc94861fdabbb144d8f42c9846e693394a1c''
      else [])"

definition demoRuntime :: Runtime where
  "demoRuntime = \<lparr> rt_glob = simpleGlob, rt_md5 = demoMd5, rt_sha256 = demoSha256,
     rt_jsonLength = (\<lambda>c. 0), rt_now = 1000, rt_cwd = ''/app'' \<rparr>"

definition demoProcessor :: "FontConfig list \<Rightarrow> FontProcessor" where
  "demoProcessor fs = newFontProcessor (defaultOptions fs) ''/app''"

text \<open>
  What the scenario produces: the published file, the processed entries and the text of
  the face declarations.
\<close>

definition demoPublished :: FontFile where
  "demoPublished =
     \<lparr> ff_path = Some ''/app/node_modules/pkg-a/files/demo-latin-wght-normal.woff2'',
       ff_fileName = ''demo-latin-wght-normal.woff2'', ff_subset = ''latin'',
       ff_style = ''normal'', ff_weight = None, ff_variable = True,
       ff_url = Some ''/fonts/demo-latin-normal-67583cbc.woff2'',
       ff_hash = Some ''67583cbc'', ff_size = Some 1000 \<rparr>"

definition demoEntry :: ProcessedFont where
  "demoEntry = \<lparr> pf_config = demoRequest, pf_metadata = demoMetadata,
     pf_files = [demoPublished, demoPublished], pf_errors = [] \<rparr>"

definition missingEntry :: ProcessedFont where
  "missingEntry = failedEntry missingRequest
     ''Package pkg-missing not found. Please install it with: npm install pkg-missing''"

definition demoFace :: string where
  "demoFace =
     ''@font-face {'' @ nl
     @ ''  font-family: '' @ apos @ ''Demo'' @ apos @ '';'' @ nl
     @ ''  font-style: normal;'' @ nl
     @ ''  font-display: swap;'' @ nl
     @ ''  font-weight: 400 700;'' @ nl
     @ ''  src: url('' @ apos @ ''/fonts/demo-latin-normal-67583cbc.woff2'' @ apos @ '') format('' @ apos @ ''woff2-variations'' @ apos @ '');'' @ nl
     @ ''  unicode-range: U+0000-00FF, U+0131, U+0152-0153, U+02BB-02BC, U+02C6, U+02DA, U+02DC, U+0304, U+0308, U+0329, U+2000-206F, U+2074, U+20AC, U+2122, U+2191, U+2193, U+2212, U+2215, U+FEFF, U+FFFD;'' @ nl
     @ ''}'' @ nl
     @ nl"

definition demoFallbackFace :: string where
  "demoFallbackFace =
     ''/* Fallback font for Demo */'' @ nl
     @ ''@font-face {'' @ nl
     @ ''  font-family: '' @ apos @ ''Demo Fallback'' @ apos @ '';'' @ nl
     @ ''  src: local('' @ apos @ ''Arial, sans-serif'' @ apos @ '');'' @ nl
     @ ''  size-adjust: 100%;'' @ nl
     @ ''  ascent-override: normal;'' @ nl
     @ ''  descent-override: normal;'' @ nl
     @ ''  line-gap-override: 0%;'' @ nl
     @ ''}'' @ nl
     @ nl"

definition georgiaFallbackFace :: string where
  "georgiaFallbackFace =
     ''/* Fallback font for Demo */'' @ nl
     @ ''@font-face {'' @ nl
     @ ''  font-family: '' @ apos @ ''Demo Fallback'' @ apos @ '';'' @ nl
     @ ''  src: local('' @ apos @ ''Georgia'' @ apos @ '');'' @ nl
     @ ''  size-adjust: 100%;'' @ nl
     @ ''  ascent-override: normal;'' @ nl
     @ ''  descent-override: normal;'' @ nl
     @ ''  line-gap-override: 0%;'' @ nl
     @ ''}'' @ nl
     @ nl"

definition capitalsFace :: string where
  "capitalsFace =
     ''@font-face {'' @ nl
     @ ''  font-family: '' @ apos @ ''Demo'' @ apos @ '';'' @ nl
     @ ''  font-style: normal;'' @ nl
     @ ''  font-display: swap;'' @ nl
     @ ''  font-weight: 400 700;'' @ nl
     @ ''  src: url('' @ apos @ ''/fonts/demo-latin-normal-67583cbc.woff2'' @ apos @ '') format('' @ apos @ ''woff2-variations'' @ apos @ '');'' @ nl
     @ ''  unicode-range: U+0041-005A;'' @ nl
     @ ''}'' @ nl
     @ nl"

text \<open>
  Files for the ordering, a second machine for publishing, a second output directory, and
  the cache written after the scenario's run.
\<close>

definition sampleFile :: "string \<Rightarrow> string \<Rightarrow> FontFile" where
  "sampleFile sub sty =
     \<lparr> ff_path = Some (''/pkg/files/demo-'' @ sub @ ''-400-'' @ sty @ ''.woff2''),
       ff_fileName = ''demo-'' @ sub @ ''-400-'' @ sty @ ''.woff2'', ff_subset = sub,
       ff_style = sty, ff_weight = Some 400, ff_variable = False, ff_url = None,
       ff_hash = None, ff_size = Some 10 \<rparr>"

definition sampleFiles :: "FontFile list" where
  "sampleFiles = [ sampleFile ''cyrillic'' ''italic'', sampleFile ''cyrillic'' ''normal'',
                   sampleFile ''latin'' ''italic'', sampleFile ''latin'' ''normal'' ]"

definition demoSource :: FontFile where
  "demoSource = demoPublished\<lparr> ff_url := None, ff_hash := None \<rparr>"

definition otherSource :: FontFile where
  "otherSource = demoSource\<lparr> ff_path := Some ''/srv/site/node_modules/pkg-a/files/demo-latin-wght-normal.woff2'' \<rparr>"

definition otherFS :: FS where
  "otherFS =
     [ (''/srv/site/static'', dirEntry),
       (''/srv/site/node_modules/pkg-a/files/demo-latin-wght-normal.woff2'',
          \<lparr> fe_node = File (Blob demoBytes), fe_size = 1000, fe_mtimeMs = 77 \<rparr>) ]"

definition otherProcessor :: FontProcessor where
  "otherProcessor = newFontProcessor ((defaultOptions [])\<lparr> opt_outputDir := Some ''static'' \<rparr>) ''/srv/site''"

definition otherRuntime :: Runtime where
  "otherRuntime = demoRuntime\<lparr> rt_now := 5000, rt_cwd := ''/srv/site'' \<rparr>"

definition staticDirFS :: FS where
  "staticDirFS = demoFS @ [(''/app/static'', dirEntry)]"

definition demoCache :: "CacheManager \<times> FS" where
  "demoCache = newCacheManager demoRuntime demoFS ''/app'' 86400000"

definition demoProcessed :: "FS \<times> ProcessedFont list" where
  "demoProcessed = processAll demoRuntime (demoProcessor [demoRequest]) (snd demoCache)"

definition demoCached :: "FS \<times> FontConfig list" where
  "demoCached = updateCache demoRuntime codeUnitKey (fst demoCache) (fst demoProcessed)
                  [demoRequest] (snd demoProcessed)"

definition laterRuntime :: Runtime where
  "laterRuntime = demoRuntime\<lparr> rt_now := 61000 \<rparr>"

text \<open>
  The stylesheet faces that a full run of the scenario generates for a request.
\<close>

definition demoFaces :: "FontConfig \<Rightarrow> string + string" where
  "demoFaces request =
     generateFontFaces (defaultOptions [request])
       (snd (processAll demoRuntime (demoProcessor [request]) (snd demoCache)))"

text \<open>
  The same project, built from the root directory as working directory: the run, the
  cache written after it, and the repeated run one millisecond later.
\<close>

definition rootRuntime :: Runtime where
  "rootRuntime = demoRuntime\<lparr> rt_cwd := ''/'' \<rparr>"

definition rootProcessed :: "FS \<times> ProcessedFont list" where
  "rootProcessed = processAll rootRuntime (demoProcessor [demoRequest]) (snd demoCache)"

definition rootCached :: "FS \<times> FontConfig list" where
  "rootCached = updateCache rootRuntime codeUnitKey (fst demoCache) (fst rootProcessed)
                  [demoRequest] (snd rootProcessed)"

definition rootRepeat :: Runtime where
  "rootRepeat = rootRuntime\<lparr> rt_now := 1001 \<rparr>"

section \<open>Verification: file-name parsing\<close>

text \<open>Splitting a hyphen-joined list of hyphen-free fields gives the fields back.\<close>
lemma splitOn_nodelim: "d \<notin> set f \<Longrightarrow> splitOn d f = [f]"
  by (induction f) (auto split: list.splits)

lemma splitOn_append: "d \<notin> set f \<Longrightarrow> splitOn d (f @ d # s) = f # splitOn d s"
  by (induction f) (auto split: list.splits)

lemma splitOn_joinWith:
  "flds \<noteq> [] \<Longrightarrow> \<forall>f\<in>set flds. d \<notin> set f \<Longrightarrow> splitOn d (joinWith [d] flds) = flds"
proof (induction flds)
  case Nil
  then show ?case by simp
next
  case (Cons x rest)
  show ?case
  proof (cases rest)
    case Nil
    with Cons.prems show ?thesis by (simp add: splitOn_nodelim)
  next
    case (Cons y ys)
    with Cons.IH Cons.prems have "splitOn d (joinWith [d] rest) = rest" by simp
    with Cons Cons.prems show ?thesis
      using splitOn_append[of d x "joinWith [d] (y # ys)"] by simp
  qed
qed

lemma joinWith_noslash:
  "\<forall>f\<in>set flds. c \<notin> set f \<Longrightarrow> c \<notin> set sep \<Longrightarrow> c \<notin> set (joinWith sep flds)"
  by (induction sep flds rule: joinWith.induct) auto

lemma basename_plain: "CHR ''/'' \<notin> set name \<Longrightarrow> basename name = name"
proof -
  assume a: "CHR ''/'' \<notin> set name"
  then have dw: "dropWhile (\<lambda>c. c = CHR ''/'') (rev name) = rev name"
    by (cases "rev name") (auto simp: rev_eq_Cons_iff)
  have tw: "takeWhile (\<lambda>c. c \<noteq> CHR ''/'') (rev name) = rev name"
    by (rule takeWhile_eq_all_conv[THEN iffD2]) (use a in auto)
  show ?thesis unfolding basename_def Let_def dw tw by simp
qed

lemma basename_dir:
  assumes "CHR ''/'' \<notin> set name" "name \<noteq> []"
  shows "basename (dir @ ''/'' @ name) = name"
proof -
  from assms obtain c r where r: "rev name = c # r" "c \<noteq> CHR ''/''"
    by (cases "rev name") auto
  have "rev (dir @ ''/'' @ name) = rev name @ CHR ''/'' # rev dir" by simp
  moreover have "dropWhile (\<lambda>c. c = CHR ''/'') (rev name @ CHR ''/'' # rev dir) = rev name @ CHR ''/'' # rev dir"
    using r by simp
  moreover have "takeWhile (\<lambda>c. c \<noteq> CHR ''/'') (rev name @ CHR ''/'' # rev dir) = rev name"
    using assms(1) by (auto simp: takeWhile_tail)
  ultimately show ?thesis unfolding basename_def Let_def by (simp del: rev_append)
qed

lemma extname_font:
  assumes "ext = ''.woff'' \<or> ext = ''.woff2''" "CHR ''/'' \<notin> set stem"
  shows "extname (stem @ ext) = (if stem = [] then [] else ext)"
proof -
  from assms have b: "basename (stem @ ext) = stem @ ext"
    by (intro basename_plain) auto
  have ne: "stem @ ext \<noteq> ''..''" using assms(1) by (cases stem) auto
  from assms(1) show ?thesis
  proof
    assume e: "ext = ''.woff''"
    have "takeWhile (\<lambda>c. c \<noteq> CHR ''.'') (rev (stem @ ext)) = ''ffow''"
      by (simp add: e)
    with ne show ?thesis unfolding extname_def b Let_def by (simp add: e)
  next
    assume e: "ext = ''.woff2''"
    have "takeWhile (\<lambda>c. c \<noteq> CHR ''.'') (rev (stem @ ext)) = ''2ffow''"
      by (simp add: e)
    with ne show ?thesis unfolding extname_def b Let_def by (simp add: e)
  qed
qed

lemma digitsToNat_snoc: "digitsToNat (ds @ [c]) = 10 * digitsToNat ds + digitVal c"
  by (simp add: digitsToNat_def)

lemma digit_char: "k < 10 \<Longrightarrow> isDigit (char_of (48 + k)) \<and> digitVal (char_of (48 + k)) = k"
  by (simp add: isDigit_def digitVal_def Let_def)

lemma natToDigits_props:
  "natToDigits n \<noteq> [] \<and> (\<forall>c\<in>set (natToDigits n). isDigit c) \<and> digitsToNat (natToDigits n) = n"
proof (induction n rule: natToDigits.induct)
  case (1 n)
  show ?case
  proof (cases "n < 10")
    case True
    then show ?thesis using digit_char[of n]
      by (simp add: natToDigits.simps[of n] digitsToNat_def)
  next
    case False
    with 1 have ih: "natToDigits (n div 10) \<noteq> []" "\<forall>c\<in>set (natToDigits (n div 10)). isDigit c"
      "digitsToNat (natToDigits (n div 10)) = n div 10" by auto
    have "n mod 10 < 10" by simp
    from digit_char[OF this] ih False show ?thesis
      by (simp add: natToDigits.simps[of n] digitsToNat_snoc)
  qed
qed

lemma isDigit_not_special: "isDigit c \<Longrightarrow> \<not> isJsSpace c \<and> c \<noteq> CHR ''-'' \<and> c \<noteq> CHR ''+''"
  by (auto simp: isDigit_def isJsSpace_def Let_def)

lemma parseInt_digits:
  assumes "ds \<noteq> []" "\<forall>c\<in>set ds. isDigit c"
  shows "parseInt ds = Some (int (digitsToNat ds))"
proof -
  from assms obtain c r where ds: "ds = c # r" by (cases ds) auto
  with assms have c: "isDigit c" by simp
  have tw: "takeWhile isDigit ds = ds" using assms(2) by (simp add: takeWhile_eq_all_conv)
  show ?thesis using isDigit_not_special[OF c] tw ds
    by (simp add: parseInt_def Let_def)
qed

lemma parseInt_nonnumeric:
  assumes "w = [] \<or> (\<not> isDigit (hd w) \<and> \<not> isJsSpace (hd w) \<and> hd w \<noteq> CHR ''-'' \<and> hd w \<noteq> CHR ''+'')"
  shows "parseInt w = None"
  using assms by (cases w) (auto simp: parseInt_def Let_def)

text \<open>
  C8. The file-name grammar. (1) A path whose extension is neither \<^verbatim>\<open>.woff\<close> nor
  \<^verbatim>\<open>.woff2\<close> is discarded. (2) For a file named by hyphen-joined, hyphen-free fields
  followed by a font extension: fewer than three fields are discarded; otherwise the style is
  the last field, the subset the third-from-last, and the weight, for static requests only,
  is the second-from-last field read by \<^verbatim>\<open>parseInt\<close>. (3) A decimal numeral parses to its value.
  (4) A field that is empty or starts with a character that is no digit, sign or white space
  leaves the weight unset, without failing.
\<close>

theorem parseFileName_grammar:
  "(extname (basename p) \<notin> {''.woff'', ''.woff2''} \<longrightarrow> parseFileName p cfg = None) \<and>
   (ext \<in> {''.woff'', ''.woff2''} \<and> (\<forall>f\<in>set flds. CHR ''-'' \<notin> set f \<and> CHR ''/'' \<notin> set f) \<longrightarrow>
      parseFileName (dir @ ''/'' @ joinWith ''-'' flds @ ext) cfg =
        (if length flds < 3 then None
         else Some \<lparr> fi_fileName = joinWith ''-'' flds @ ext,
                     fi_subset = flds ! (length flds - 3),
                     fi_style = last flds,
                     fi_weight = (if cfg_variable cfg then None
                                  else parseInt (flds ! (length flds - 2))),
                     fi_variable = cfg_variable cfg \<rparr>)) \<and>
   parseInt (natToDigits n) = Some (int n) \<and>
   (w = [] \<or> (\<not> isDigit (hd w) \<and> \<not> isJsSpace (hd w) \<and> hd w \<notin> {CHR ''-'', CHR ''+''})
      \<longrightarrow> parseInt w = None)"
proof (intro conjI impI)
  assume "extname (basename p) \<notin> {''.woff'', ''.woff2''}"
  then show "parseFileName p cfg = None"
    by (simp add: parseFileName_def Let_def)
next
  assume a: "ext \<in> {''.woff'', ''.woff2''} \<and> (\<forall>f\<in>set flds. CHR ''-'' \<notin> set f \<and> CHR ''/'' \<notin> set f)"
  define stem where "stem = joinWith ''-'' flds"
  define name where "name = stem @ ext"
  from a have ext: "ext = ''.woff'' \<or> ext = ''.woff2''" by simp
  have ns: "CHR ''/'' \<notin> set stem" unfolding stem_def
    using a by (intro joinWith_noslash) auto
  with ext have nn: "CHR ''/'' \<notin> set name" "name \<noteq> []" by (auto simp: name_def)
  have bn: "basename (dir @ ''/'' @ name) = name" by (rule basename_dir[OF nn])
  have bn2: "basename name = name" by (rule basename_plain[OF nn(1)])
  have en: "extname name = (if stem = [] then [] else ext)"
    unfolding name_def by (rule extname_font[OF ext ns])
  show "parseFileName (dir @ ''/'' @ joinWith ''-'' flds @ ext) cfg =
        (if length flds < 3 then None
         else Some \<lparr> fi_fileName = joinWith ''-'' flds @ ext,
                     fi_subset = flds ! (length flds - 3),
                     fi_style = last flds,
                     fi_weight = (if cfg_variable cfg then None
                                  else parseInt (flds ! (length flds - 2))),
                     fi_variable = cfg_variable cfg \<rparr>)"
  proof (cases "length flds < 3")
    case True
    show ?thesis
    proof (cases "stem = []")
      case True
      with en ext have "extname name \<notin> set [''.woff'', ''.woff2'']" by auto
      with \<open>length flds < 3\<close> show ?thesis
        unfolding parseFileName_def Let_def bn[unfolded name_def stem_def] 
        by (simp add: name_def stem_def)
    next
      case False
      then have fl: "flds \<noteq> []" by (auto simp: stem_def)
      with a have sp: "splitOn CHR ''-'' stem = flds"
        unfolding stem_def using splitOn_joinWith[of flds "CHR ''-''"] by simp
      from False en have e2: "extname name = ext" by simp
      have tk: "take (length name - length ext) name = stem" by (simp add: name_def)
      from True ext show ?thesis
        unfolding parseFileName_def Let_def bn[unfolded name_def stem_def]
          e2[unfolded name_def stem_def] tk[unfolded name_def stem_def] sp[unfolded stem_def]
        by auto
    qed
  next
    case False
    then have fl: "flds \<noteq> []" by auto
    with a have sp: "splitOn CHR ''-'' stem = flds"
      unfolding stem_def using splitOn_joinWith[of flds "CHR ''-''"] by simp
    from False obtain x y z where "flds = x # y # z" by (cases flds, simp, rename_tac a l, case_tac l, auto)
    then have "stem \<noteq> []" by (simp add: stem_def)
    with en have e2: "extname name = ext" by simp
    have tk: "take (length name - length ext) name = stem" by (simp add: name_def)
    have lst: "flds ! (length flds - 1) = last flds" using fl by (simp add: last_conv_nth)
    from False ext show ?thesis
      unfolding parseFileName_def Let_def bn[unfolded name_def stem_def]
        e2[unfolded name_def stem_def] tk[unfolded name_def stem_def] sp[unfolded stem_def] lst
      by auto
  qed
next
  show "parseInt (natToDigits n) = Some (int n)"
    using natToDigits_props[of n] parseInt_digits[of "natToDigits n"] by simp
next
  assume "w = [] \<or> (\<not> isDigit (hd w) \<and> \<not> isJsSpace (hd w) \<and> hd w \<notin> {CHR ''-'', CHR ''+''})"
  then show "parseInt w = None" by (intro parseInt_nonnumeric) auto
qed


theorem parseFileName_grammar_witness:
  "extname (basename ''/pkg/files/LICENSE.txt'') \<notin> {''.woff'', ''.woff2''} \<and>
   parseFileName ''/pkg/files/LICENSE.txt'' staticRequest = None \<and>
   parseFileName ''/pkg/files/roboto-latin-400-normal.woff2'' staticRequest =
     Some \<lparr> fi_fileName = ''roboto-latin-400-normal.woff2'', fi_subset = ''latin'',
            fi_style = ''normal'', fi_weight = Some 400, fi_variable = False \<rparr> \<and>
   parseInt (natToDigits 400) = Some 400 \<and>
   parseInt ''bold'' = None"
  using parseFileName_grammar [of "''/pkg/files/LICENSE.txt''" staticRequest "''.woff2''"
      "[''roboto'', ''latin'', ''400'', ''normal'']" "''/pkg/files''" 400 "''bold''"]
  by (simp add: staticRequest_def basename_def extname_def isDigit_def isJsSpace_def
      parseInt_def digitsToNat_def digitVal_def Let_def)

section \<open>Verification: sorting\<close>

text \<open>
  A comparator that agrees with a key is sorted by as \<open>sort_key\<close> sorts by the key.
\<close>

lemma insertBy_insort_key:
  assumes "\<And>x y. cmp x y \<le> 0 \<longleftrightarrow> key x \<le> key y"
  shows "insertBy cmp x xs = insort_key key x xs"
  by (induction xs) (simp_all add: assms)

lemma sortBy_sort_key:
  assumes "\<And>x y. cmp x y \<le> 0 \<longleftrightarrow> key x \<le> (key y :: 'k::linorder)"
  shows "sortBy cmp xs = sort_key key xs"
  unfolding sortBy_def by (induction xs) (simp_all add: insertBy_insort_key[of cmp key, OF assms])

lemma sort_key_unique:
  assumes "mset xs = mset ys" "inj_on f (set xs)"
  shows "sort_key f xs = sort_key f ys"
proof (rule properties_for_sort_key)
  show "mset (sort_key f ys) = mset xs" using assms(1) by simp
  show "sorted (map f (sort_key f ys))" by (rule sorted_sort_key)
  fix k assume "k \<in> set (sort_key f ys)"
  then have k: "k \<in> set xs" using assms(1) by (metis set_mset_mset set_sort)
  have sets: "set ys = set xs" using assms(1) by (metis set_mset_mset)
  have "filter (\<lambda>x. f k = f x) (sort_key f ys) = filter (\<lambda>x. f x = f k) (sort_key f ys)"
    by (rule filter_cong) auto
  also have "\<dots> = filter (\<lambda>x. f x = f k) ys" by (rule sort_key_stable)
  also have "\<dots> = filter (HOL.eq k) ys"
    by (rule filter_cong) (use assms(2) k sets in \<open>auto dest: inj_onD\<close>)
  also have "\<dots> = replicate (count (mset ys) k) k" by (simp add: replicate_count_mset_eq_filter_eq)
  also have "\<dots> = replicate (count (mset xs) k) k" by (simp add: assms(1))
  also have "\<dots> = filter (HOL.eq k) xs" by (simp add: replicate_count_mset_eq_filter_eq)
  also have "\<dots> = filter (\<lambda>x. f k = f x) xs"
    by (rule filter_cong) (use assms(2) k in \<open>auto dest: inj_onD\<close>)
  finally show "filter (\<lambda>x. f k = f x) (sort_key f ys) = filter (\<lambda>x. f k = f x) xs" .
qed

lemma compareFiles_rank: "compareFiles a b \<le> 0 \<longleftrightarrow> fileRank a \<le> fileRank b"
  by (simp add: compareFiles_def fileRank_def)

lemma sortBy_compareFiles: "sortBy compareFiles xs = sort_key fileRank xs"
  by (rule sortBy_sort_key) (rule compareFiles_rank)

lemma sorted_rank_nth:
  assumes "i < j" "j < length (sort_key fileRank xs)"
  shows "fileRank (sort_key fileRank xs ! i) \<le> fileRank (sort_key fileRank xs ! j)"
proof -
  have "sorted (map fileRank (sort_key fileRank xs))" by (rule sorted_sort_key)
  from sorted_nth_mono[OF this, of i j] assms show ?thesis by simp
qed



text \<open>
  C6. The resolved list is the matched list sorted by the comparator: it is a permutation
  of the matched files; no file of another subset precedes a latin file (latin is the
  default subset, the one the code names); among files that agree on being latin, no
  other style precedes a normal one; hence a latin/normal file is preceded only by
  latin/normal files; and files that the comparator does not separate keep their original
  order. Every list that \<^verbatim>\<open>findFontFiles\<close> returns is sorted this way.
\<close>

theorem findFontFiles_order:
  fixes xs :: "FontFile list"
  defines "ys \<equiv> sortBy compareFiles xs"
  shows "mset ys = mset xs
    \<and> (\<forall>i j. i < j \<and> j < length ys \<and> ff_subset (ys ! j) = ''latin'' \<longrightarrow> ff_subset (ys ! i) = ''latin'')
    \<and> (\<forall>i j. i < j \<and> j < length ys
           \<and> ((ff_subset (ys ! i) = ''latin'') = (ff_subset (ys ! j) = ''latin''))
           \<and> ff_style (ys ! j) = ''normal'' \<longrightarrow> ff_style (ys ! i) = ''normal'')
    \<and> (\<forall>i j. i < j \<and> j < length ys
           \<and> ff_subset (ys ! j) = ''latin'' \<and> ff_style (ys ! j) = ''normal''
           \<longrightarrow> ff_subset (ys ! i) = ''latin'' \<and> ff_style (ys ! i) = ''normal'')
    \<and> (\<forall>l n. filter (\<lambda>f. (ff_subset f = ''latin'') = l \<and> (ff_style f = ''normal'') = n) ys
             = filter (\<lambda>f. (ff_subset f = ''latin'') = l \<and> (ff_style f = ''normal'') = n) xs)
    \<and> (\<forall>rt fs packagePath config metadata zs.
          findFontFiles rt fs packagePath config metadata = Inr zs
          \<longrightarrow> (\<exists>found. zs = sortBy compareFiles found))"
proof -
  have ys: "ys = sort_key fileRank xs" by (simp add: ys_def sortBy_compareFiles)
  have m: "mset ys = mset xs" by (simp add: ys)
  have r: "fileRank (ys ! i) \<le> fileRank (ys ! j)" if "i < j" "j < length ys" for i j
    using that sorted_rank_nth[of i j xs] by (simp add: ys)
  have a: "\<forall>i j. i < j \<and> j < length ys \<and> ff_subset (ys ! j) = ''latin'' \<longrightarrow> ff_subset (ys ! i) = ''latin''"
  proof (intro allI impI)
    fix i j assume h: "i < j \<and> j < length ys \<and> ff_subset (ys ! j) = ''latin''"
    with r[of i j] show "ff_subset (ys ! i) = ''latin''"
      by (auto simp: fileRank_def split: if_splits)
  qed
  have b: "\<forall>i j. i < j \<and> j < length ys
           \<and> ((ff_subset (ys ! i) = ''latin'') = (ff_subset (ys ! j) = ''latin''))
           \<and> ff_style (ys ! j) = ''normal'' \<longrightarrow> ff_style (ys ! i) = ''normal''"
  proof (intro allI impI)
    fix i j assume h: "i < j \<and> j < length ys
           \<and> ((ff_subset (ys ! i) = ''latin'') = (ff_subset (ys ! j) = ''latin''))
           \<and> ff_style (ys ! j) = ''normal''"
    with r[of i j] show "ff_style (ys ! i) = ''normal''"
      by (auto simp: fileRank_def split: if_splits)
  qed
  have c: "\<forall>i j. i < j \<and> j < length ys
           \<and> ff_subset (ys ! j) = ''latin'' \<and> ff_style (ys ! j) = ''normal''
           \<longrightarrow> ff_subset (ys ! i) = ''latin'' \<and> ff_style (ys ! i) = ''normal''"
  proof (intro allI impI)
    fix i j assume h: "i < j \<and> j < length ys
           \<and> ff_subset (ys ! j) = ''latin'' \<and> ff_style (ys ! j) = ''normal''"
    with r[of i j] show "ff_subset (ys ! i) = ''latin'' \<and> ff_style (ys ! i) = ''normal''"
      by (auto simp: fileRank_def split: if_splits)
  qed
  have d: "\<forall>l n. filter (\<lambda>f. (ff_subset f = ''latin'') = l \<and> (ff_style f = ''normal'') = n) ys
             = filter (\<lambda>f. (ff_subset f = ''latin'') = l \<and> (ff_style f = ''normal'') = n) xs"
  proof (intro allI)
    fix l n
    define k where "k = (if l then 0 else 2) + (if n then (0::nat) else 1)"
    have eq: "((ff_subset f = ''latin'') = l \<and> (ff_style f = ''normal'') = n) = (fileRank f = k)" for f
      by (auto simp: fileRank_def k_def)
    show "filter (\<lambda>f. (ff_subset f = ''latin'') = l \<and> (ff_style f = ''normal'') = n) ys
             = filter (\<lambda>f. (ff_subset f = ''latin'') = l \<and> (ff_style f = ''normal'') = n) xs"
      unfolding eq ys by (rule sort_key_stable)
  qed
  have e: "\<forall>rt fs packagePath config metadata zs.
          findFontFiles rt fs packagePath config metadata = Inr zs
          \<longrightarrow> (\<exists>found. zs = sortBy compareFiles found)"
    by (auto simp: findFontFiles_def Let_def split: if_splits sum.splits)
  from m a b c d e show ?thesis by blast
qed

theorem findFontFiles_order_witness:
  "sortBy compareFiles sampleFiles
     = [ sampleFile ''latin'' ''normal'', sampleFile ''latin'' ''italic'',
         sampleFile ''cyrillic'' ''normal'', sampleFile ''cyrillic'' ''italic'' ]
   \<and> (0::nat) < 1 \<and> 1 < length (sortBy compareFiles sampleFiles)
   \<and> ff_subset (sortBy compareFiles sampleFiles ! 1) = ''latin''
   \<and> ff_subset (sortBy compareFiles sampleFiles ! 0) = ''latin''
   \<and> ff_style (sortBy compareFiles sampleFiles ! 0) = ''normal''
   \<and> findFontFiles demoRuntime demoFS ''/app/node_modules/pkg-a'' demoRequest demoMetadata
       = Inr [demoPublished\<lparr>ff_url := None, ff_hash := None\<rparr>,
              demoPublished\<lparr>ff_url := None, ff_hash := None\<rparr>]"
proof -
  have s: "sortBy compareFiles sampleFiles
     = [ sampleFile ''latin'' ''normal'', sampleFile ''latin'' ''italic'',
         sampleFile ''cyrillic'' ''normal'', sampleFile ''cyrillic'' ''italic'' ]"
    by code_simp
  have f: "findFontFiles demoRuntime demoFS ''/app/node_modules/pkg-a'' demoRequest demoMetadata
       = Inr [demoPublished\<lparr>ff_url := None, ff_hash := None\<rparr>,
              demoPublished\<lparr>ff_url := None, ff_hash := None\<rparr>]"
    by code_simp
  have h: "(0::nat) < 1 \<and> 1 < length (sortBy compareFiles sampleFiles)
     \<and> ff_subset (sortBy compareFiles sampleFiles ! 1) = ''latin''"
    by (simp add: s sampleFile_def)
  from findFontFiles_order[of sampleFiles] h
  have "ff_subset (sortBy compareFiles sampleFiles ! 0) = ''latin''" by blast
  moreover have "ff_style (sortBy compareFiles sampleFiles ! 0) = ''normal''"
    by (simp add: s sampleFile_def)
  ultimately show ?thesis using s f h by simp
qed

section \<open>Verification: publishing\<close>

lemma map_of_update_other: "p \<noteq> k \<Longrightarrow> map_of (AList.update k v fs) p = map_of fs p"
  by (simp add: update_conv')

lemma writeEntry_other:
  "writeEntry fs dest e = Inr fs' \<Longrightarrow> p \<noteq> dest \<Longrightarrow> map_of fs' p = map_of fs p"
  by (auto simp: writeEntry_def map_of_update_other split: option.splits fnode.splits if_splits)

lemma writeEntry_dest:
  "writeEntry fs dest e = Inr fs' \<Longrightarrow> map_of fs' dest = Some e"
  by (auto simp: writeEntry_def update_conv' split: option.splits fnode.splits if_splits)

lemma writeEntry_exists:
  "writeEntry fs dest e = Inr fs' \<Longrightarrow> existsSync fs p \<Longrightarrow> existsSync fs' p"
  by (cases "p = dest") (auto simp: existsSync_def writeEntry_dest writeEntry_other)

lemma copyFileSync_other:
  "copyFileSync now fs src dest = Inr fs' \<Longrightarrow> p \<noteq> dest \<Longrightarrow> map_of fs' p = map_of fs p"
  by (auto simp: copyFileSync_def split: option.splits fnode.splits dest: writeEntry_other)

lemma copyFileSync_exists:
  "copyFileSync now fs src dest = Inr fs' \<Longrightarrow> existsSync fs p \<Longrightarrow> existsSync fs' p"
  by (auto simp: copyFileSync_def split: option.splits fnode.splits dest: writeEntry_exists)

lemma copyFileSync_dest:
  "copyFileSync now fs src dest = Inr fs' \<Longrightarrow> existsSync fs' dest"
  by (auto simp: copyFileSync_def existsSync_def split: option.splits fnode.splits dest: writeEntry_dest)

lemma copyLoop_exists:
  "copyLoop rt fp family fs files acc = (fs', r) \<Longrightarrow> existsSync fs p \<Longrightarrow> existsSync fs' p"
proof (induction files arbitrary: fs acc)
  case Nil
  then show ?case by simp
next
  case (Cons f files)
  then show ?case
    by (auto simp: Let_def split: option.splits sum.splits dest: copyFileSync_exists)
qed

lemma startsWith_join: "startsWith (join d n) (d @ ''/'')"
  by (simp add: startsWith_def join_def)

lemma sourceBytes_cong:
  "(\<And>p. ff_path f = Some p \<Longrightarrow> map_of fs' p = map_of fs p) \<Longrightarrow> sourceBytes fs' f = sourceBytes fs f"
  by (auto simp: sourceBytes_def readFileSync_def split: option.splits)

text \<open>
  What a successful loop returns, file by file.
\<close>

lemma copyLoop_result:
  assumes "copyLoop rt fp family fs files acc = (fs', Inr out)" "outsideOutput fp files"
  shows "(files = [] \<or> family \<noteq> None)
    \<and> out = acc @ map (\<lambda>f. publishAs rt (the family) (the (sourceBytes fs f)) f) files
    \<and> (\<forall>f\<in>set files. sourceBytes fs f \<noteq> None)
    \<and> (\<forall>f\<in>set files. existsSync fs'
           (join (fp_outputDir fp) (hashedName rt (the family) f (the (sourceBytes fs f)))))"
  using assms
proof (induction files arbitrary: fs acc)
  case Nil
  then show ?case by simp
next
  case (Cons f files)
  from Cons.prems(1) obtain p c fam fs1 where
    p: "ff_path f = Some p" and c: "readFileSync fs p = Inr c" and fam: "family = Some fam"
    and cp: "copyFileSync (rt_now rt) fs p (join (fp_outputDir fp) (hashedName rt fam f c)) = Inr fs1"
    and rest: "copyLoop rt fp family fs1 files (acc @ [publishAs rt fam c f]) = (fs', Inr out)"
    by (auto simp: Let_def publishAs_def split: option.splits sum.splits)
  from Cons.prems(2) have oo: "outsideOutput fp files" by (simp add: outsideOutput_def)
  have same: "map_of fs1 r = map_of fs r" if "\<not> startsWith r (fp_outputDir fp @ ''/'')" for r
    using copyFileSync_other[OF cp, of r] that startsWith_join by metis
  have sb: "sourceBytes fs1 g = sourceBytes fs g" if "g \<in> set files" for g
    using that Cons.prems(2) by (intro sourceBytes_cong same) (force simp: outsideOutput_def)
  have sbf: "sourceBytes fs f = Some c" using p c by (simp add: sourceBytes_def)
  note ih = Cons.IH[OF rest oo]
  have "out = (acc @ [publishAs rt fam c f]) @ map (\<lambda>f. publishAs rt (the family) (the (sourceBytes fs1 f)) f) files"
    using ih by blast
  also have "map (\<lambda>f. publishAs rt (the family) (the (sourceBytes fs1 f)) f) files
             = map (\<lambda>f. publishAs rt (the family) (the (sourceBytes fs f)) f) files"
    by (rule map_cong) (simp_all add: sb)
  finally have 2: "out = acc @ map (\<lambda>f. publishAs rt (the family) (the (sourceBytes fs f)) f) (f # files)"
    using fam sbf by simp
  have 3: "\<forall>g\<in>set (f # files). sourceBytes fs g \<noteq> None" using ih sb sbf by auto
  have "existsSync fs1 (join (fp_outputDir fp) (hashedName rt fam f c))"
    by (rule copyFileSync_dest[OF cp])
  then have "existsSync fs' (join (fp_outputDir fp) (hashedName rt fam f c))"
    by (rule copyLoop_exists[OF rest])
  then have 4: "\<forall>g\<in>set (f # files). existsSync fs'
           (join (fp_outputDir fp) (hashedName rt (the family) g (the (sourceBytes fs g))))"
    using ih sb sbf fam by auto
  from fam 2 3 4 show ?case by blast
qed

lemma copyLoop_shape:
  "copyLoop rt fp family fs files acc = (fs', Inr out) \<Longrightarrow>
     \<exists>new. out = acc @ new \<and> length new = length files
       \<and> (\<forall>f\<in>set new. \<exists>name. ff_url f = Some (''/fonts/'' @ name) \<and> ff_hash f \<noteq> None
             \<and> existsSync fs' (join (fp_outputDir fp) name))"
proof (induction files arbitrary: fs acc)
  case Nil
  then show ?case by simp
next
  case (Cons f files)
  from Cons.prems(1) obtain p c fam fs1 where
    p: "ff_path f = Some p" and c: "readFileSync fs p = Inr c" and fam: "family = Some fam"
    and cp: "copyFileSync (rt_now rt) fs p (join (fp_outputDir fp) (hashedName rt fam f c)) = Inr fs1"
    and rest: "copyLoop rt fp family fs1 files (acc @ [publishAs rt fam c f]) = (fs', Inr out)"
    by (auto simp: Let_def publishAs_def split: option.splits sum.splits)
  from Cons.IH[OF rest] obtain new where new: "out = (acc @ [publishAs rt fam c f]) @ new"
    "length new = length files"
    "\<forall>f\<in>set new. \<exists>name. ff_url f = Some (''/fonts/'' @ name) \<and> ff_hash f \<noteq> None
             \<and> existsSync fs' (join (fp_outputDir fp) name)" by blast
  have "existsSync fs' (join (fp_outputDir fp) (hashedName rt fam f c))"
    by (rule copyLoop_exists[OF rest copyFileSync_dest[OF cp]])
  then have "\<exists>name. ff_url (publishAs rt fam c f) = Some (''/fonts/'' @ name) \<and> ff_hash (publishAs rt fam c f) \<noteq> None
             \<and> existsSync fs' (join (fp_outputDir fp) name)"
    by (auto simp: publishAs_def)
  with new show ?case
    by (intro exI[of _ "publishAs rt fam c f # new"]) auto
qed

text \<open>
  C5. Two publish runs, possibly on different machines (run-time, processor, file system
  and source paths may all differ), with the same MD5 function and the same family, over
  files that pairwise have identical bytes, the same subset, the same style and the same
  file-name extension: every published hash is the first eight digits of the MD5 of the
  file's bytes, and the two runs produce the same hashes and the same URLs, hence the
  same destination names. Source files are assumed to lie outside the output directory.
\<close>

theorem copyFontFiles_deterministic:
  assumes "copyFontFiles rt1 fp1 fs1 files1 (Some family) = (fs1', Inr out1)"
      and "copyFontFiles rt2 fp2 fs2 files2 (Some family) = (fs2', Inr out2)"
      and "rt_md5 rt1 = rt_md5 rt2"
      and "outsideOutput fp1 files1" and "outsideOutput fp2 files2"
      and "list_all2 (\<lambda>f g. sourceBytes fs1 f = sourceBytes fs2 g
                            \<and> ff_subset f = ff_subset g \<and> ff_style f = ff_style g
                            \<and> extname (ff_fileName f) = extname (ff_fileName g)) files1 files2"
  shows "(\<forall>i<length files1. \<exists>bytes. sourceBytes fs1 (files1 ! i) = Some bytes
            \<and> ff_hash (out1 ! i) = Some (take 8 (rt_md5 rt1 bytes))
            \<and> ff_url (out1 ! i) = Some (''/fonts/'' @ hashedName rt1 family (files1 ! i) bytes))
       \<and> map ff_hash out1 = map ff_hash out2
       \<and> map ff_url out1 = map ff_url out2"
proof -
  from copyLoop_result[OF assms(1)[unfolded copyFontFiles_def] assms(4)]
  have o1: "out1 = map (\<lambda>f. publishAs rt1 family (the (sourceBytes fs1 f)) f) files1"
    and b1: "\<forall>f\<in>set files1. sourceBytes fs1 f \<noteq> None" by simp_all
  from copyLoop_result[OF assms(2)[unfolded copyFontFiles_def] assms(5)]
  have o2: "out2 = map (\<lambda>f. publishAs rt2 family (the (sourceBytes fs2 f)) f) files2" by simp
  have first: "\<forall>i<length files1. \<exists>bytes. sourceBytes fs1 (files1 ! i) = Some bytes
            \<and> ff_hash (out1 ! i) = Some (take 8 (rt_md5 rt1 bytes))
            \<and> ff_url (out1 ! i) = Some (''/fonts/'' @ hashedName rt1 family (files1 ! i) bytes)"
  proof (intro allI impI)
    fix i assume i: "i < length files1"
    with b1 obtain bytes where "sourceBytes fs1 (files1 ! i) = Some bytes" by fastforce
    with i show "\<exists>bytes. sourceBytes fs1 (files1 ! i) = Some bytes
            \<and> ff_hash (out1 ! i) = Some (take 8 (rt_md5 rt1 bytes))
            \<and> ff_url (out1 ! i) = Some (''/fonts/'' @ hashedName rt1 family (files1 ! i) bytes)"
      by (simp add: o1 publishAs_def)
  qed
  have pair: "ff_hash (publishAs rt1 family (the (sourceBytes fs1 f)) f)
                = ff_hash (publishAs rt2 family (the (sourceBytes fs2 g)) g)
            \<and> ff_url (publishAs rt1 family (the (sourceBytes fs1 f)) f)
                = ff_url (publishAs rt2 family (the (sourceBytes fs2 g)) g)"
    if "sourceBytes fs1 f = sourceBytes fs2 g" "ff_subset f = ff_subset g"
       "ff_style f = ff_style g" "extname (ff_fileName f) = extname (ff_fileName g)" for f g
    using that assms(3) by (simp add: publishAs_def hashedName_def Let_def)
  from assms(6) have "map ff_hash (map (\<lambda>f. publishAs rt1 family (the (sourceBytes fs1 f)) f) files1)
        = map ff_hash (map (\<lambda>f. publishAs rt2 family (the (sourceBytes fs2 f)) f) files2)
      \<and> map ff_url (map (\<lambda>f. publishAs rt1 family (the (sourceBytes fs1 f)) f) files1)
        = map ff_url (map (\<lambda>f. publishAs rt2 family (the (sourceBytes fs2 f)) f) files2)"
  proof (induction files1 files2 rule: list_all2_induct)
    case Nil
    then show ?case by simp
  next
    case (Cons f fs g gs)
    with pair[of f g] show ?case by simp
  qed
  with first show ?thesis by (simp add: o1 o2)
qed

theorem copyFontFiles_deterministic_witness:
  "snd (copyFontFiles demoRuntime (demoProcessor []) demoFS [demoSource] (Some ''Demo''))
     = Inr [demoPublished]
   \<and> snd (copyFontFiles otherRuntime otherProcessor otherFS [otherSource] (Some ''Demo''))
     = Inr [demoPublished\<lparr> ff_path := ff_path otherSource \<rparr>]
   \<and> sourceBytes demoFS demoSource = Some (Blob demoBytes)
   \<and> sourceBytes otherFS otherSource = Some (Blob demoBytes)
   \<and> outsideOutput (demoProcessor []) [demoSource] \<and> outsideOutput otherProcessor [otherSource]
   \<and> map ff_url [demoPublished] = map ff_url [demoPublished\<lparr> ff_path := ff_path otherSource \<rparr>]
   \<and> ff_hash demoPublished = Some (take 8 (rt_md5 demoRuntime (Blob demoBytes)))"
proof -
  have s1: "snd (copyFontFiles demoRuntime (demoProcessor []) demoFS [demoSource] (Some ''Demo''))
     = Inr [demoPublished]" by code_simp
  have s2: "snd (copyFontFiles otherRuntime otherProcessor otherFS [otherSource] (Some ''Demo''))
     = Inr [demoPublished\<lparr> ff_path := ff_path otherSource \<rparr>]" by code_simp
  have r1: "copyFontFiles demoRuntime (demoProcessor []) demoFS [demoSource] (Some ''Demo'')
     = (fst (copyFontFiles demoRuntime (demoProcessor []) demoFS [demoSource] (Some ''Demo'')),
        Inr [demoPublished])" by (simp add: prod_eq_iff s1)
  have r2: "copyFontFiles otherRuntime otherProcessor otherFS [otherSource] (Some ''Demo'')
     = (fst (copyFontFiles otherRuntime otherProcessor otherFS [otherSource] (Some ''Demo'')),
        Inr [demoPublished\<lparr> ff_path := ff_path otherSource \<rparr>])" by (simp add: prod_eq_iff s2)
  have m: "rt_md5 demoRuntime = rt_md5 otherRuntime" by (simp add: otherRuntime_def)
  have o1: "outsideOutput (demoProcessor []) [demoSource]" by code_simp
  have o2: "outsideOutput otherProcessor [otherSource]" by code_simp
  have b1: "sourceBytes demoFS demoSource = Some (Blob demoBytes)" by code_simp
  have b2: "sourceBytes otherFS otherSource = Some (Blob demoBytes)" by code_simp
  have l: "list_all2 (\<lambda>f g. sourceBytes demoFS f = sourceBytes otherFS g
                            \<and> ff_subset f = ff_subset g \<and> ff_style f = ff_style g
                            \<and> extname (ff_fileName f) = extname (ff_fileName g))
             [demoSource] [otherSource]"
  proof -
    have "ff_subset otherSource = ff_subset demoSource" "ff_style otherSource = ff_style demoSource"
      "ff_fileName otherSource = ff_fileName demoSource" by (simp_all add: otherSource_def)
    then show ?thesis by (simp add: b1 b2)
  qed
  from copyFontFiles_deterministic[OF r1 r2 m o1 o2 l] b1
  have "map ff_url [demoPublished] = map ff_url [demoPublished\<lparr> ff_path := ff_path otherSource \<rparr>]"
    and "ff_hash demoPublished = Some (take 8 (rt_md5 demoRuntime (Blob demoBytes)))"
    by auto
  with s1 s2 b1 b2 o1 o2 show ?thesis by blast
qed

text \<open>
  C10. Whatever the module options are, every published file's URL is the literal
  \<^verbatim>\<open>/fonts/\<close> followed by a name under which a file now exists in the processor's output
  directory; and a run with any other options (another output directory in particular)
  over the same files yields the same URLs.
\<close>

theorem publish_url_prefix:
  assumes "copyFontFiles rt (newFontProcessor options projectRoot) fs files family = (fs', Inr out)"
  shows "length out = length files
       \<and> (\<forall>f\<in>set out. \<exists>name. ff_url f = Some (''/fonts/'' @ name)
             \<and> existsSync fs'
                 (join (join projectRoot (orElse (opt_outputDir options) ''public/fonts'')) name))
       \<and> (\<forall>options' fs'' out'.
             copyFontFiles rt (newFontProcessor options' projectRoot) fs files family = (fs'', Inr out')
             \<and> outsideOutput (newFontProcessor options projectRoot) files
             \<and> outsideOutput (newFontProcessor options' projectRoot) files
             \<longrightarrow> map ff_url out' = map ff_url out)"
proof -
  let ?fp = "newFontProcessor options projectRoot"
  from copyLoop_shape[OF assms[unfolded copyFontFiles_def]]
  have "length out = length files"
    and "\<forall>f\<in>set out. \<exists>name. ff_url f = Some (''/fonts/'' @ name) \<and> ff_hash f \<noteq> None
             \<and> existsSync fs' (join (fp_outputDir ?fp) name)" by auto
  then have a: "length out = length files"
    and b: "\<forall>f\<in>set out. \<exists>name. ff_url f = Some (''/fonts/'' @ name)
             \<and> existsSync fs'
                 (join (join projectRoot (orElse (opt_outputDir options) ''public/fonts'')) name)"
    by (auto simp: newFontProcessor_def)
  have c: "\<forall>options' fs'' out'.
             copyFontFiles rt (newFontProcessor options' projectRoot) fs files family = (fs'', Inr out')
             \<and> outsideOutput (newFontProcessor options projectRoot) files
             \<and> outsideOutput (newFontProcessor options' projectRoot) files
             \<longrightarrow> map ff_url out' = map ff_url out"
  proof (intro allI impI, elim conjE)
    fix options' fs'' out'
    assume r: "copyFontFiles rt (newFontProcessor options' projectRoot) fs files family = (fs'', Inr out')"
      and o: "outsideOutput (newFontProcessor options projectRoot) files"
      and o': "outsideOutput (newFontProcessor options' projectRoot) files"
    from copyLoop_result[OF assms[unfolded copyFontFiles_def] o]
    have "out = map (\<lambda>f. publishAs rt (the family) (the (sourceBytes fs f)) f) files" by simp
    moreover from copyLoop_result[OF r[unfolded copyFontFiles_def] o']
    have "out' = map (\<lambda>f. publishAs rt (the family) (the (sourceBytes fs f)) f) files" by simp
    ultimately show "map ff_url out' = map ff_url out" by simp
  qed
  from a b c show ?thesis by blast
qed

theorem publish_url_prefix_witness:
  "snd (copyFontFiles demoRuntime (newFontProcessor (defaultOptions []) ''/app'') staticDirFS
          [demoSource] (Some ''Demo'')) = Inr [demoPublished]
   \<and> snd (copyFontFiles demoRuntime
            (newFontProcessor ((defaultOptions [])\<lparr> opt_outputDir := Some ''static'' \<rparr>) ''/app'')
            staticDirFS [demoSource] (Some ''Demo'')) = Inr [demoPublished]
   \<and> ff_url demoPublished = Some (''/fonts/'' @ ''demo-latin-normal-67583cbc.woff2'')
   \<and> existsSync (fst (copyFontFiles demoRuntime
            (newFontProcessor ((defaultOptions [])\<lparr> opt_outputDir := Some ''static'' \<rparr>) ''/app'')
            staticDirFS [demoSource] (Some ''Demo'')))
        ''/app/static/demo-latin-normal-67583cbc.woff2''"
proof -
  let ?o1 = "defaultOptions []"
  let ?o2 = "(defaultOptions [])\<lparr> opt_outputDir := Some ''static'' \<rparr>"
  let ?run1 = "copyFontFiles demoRuntime (newFontProcessor ?o1 ''/app'') staticDirFS [demoSource] (Some ''Demo'')"
  let ?run2 = "copyFontFiles demoRuntime (newFontProcessor ?o2 ''/app'') staticDirFS [demoSource] (Some ''Demo'')"
  have s1: "snd ?run1 = Inr [demoPublished]" by code_simp
  have s2: "snd ?run2 = Inr [demoPublished]" by code_simp
  have r1: "?run1 = (fst ?run1, Inr [demoPublished])" by (simp add: prod_eq_iff s1)
  have r2: "?run2 = (fst ?run2, Inr [demoPublished])" by (simp add: prod_eq_iff s2)
  have o1: "outsideOutput (newFontProcessor ?o1 ''/app'') [demoSource]" by code_simp
  have o2: "outsideOutput (newFontProcessor ?o2 ''/app'') [demoSource]" by code_simp
  have u: "ff_url demoPublished = Some (''/fonts/'' @ ''demo-latin-normal-67583cbc.woff2'')"
    by (simp add: demoPublished_def)
  from publish_url_prefix[OF r2] obtain name where
    n: "ff_url demoPublished = Some (''/fonts/'' @ name)"
    and e: "existsSync (fst ?run2) (join (join ''/app'' (orElse (opt_outputDir ?o2) ''public/fonts'')) name)"
    by auto
  from n u have "name = ''demo-latin-normal-67583cbc.woff2''" by simp
  with e have ex: "existsSync (fst ?run2) ''/app/static/demo-latin-normal-67583cbc.woff2''"
    by (simp add: join_def orElse_def defaultOptions_def)
  from publish_url_prefix[OF r1] r2 o1 o2 have "map ff_url [demoPublished] = map ff_url [demoPublished]"
    by simp
  with s1 s2 u ex show ?thesis by blast
qed

section \<open>Verification: the orchestrator\<close>

lemma processFont_Inr:
  assumes "processFont rt fp fs c = (fs', Inr r)"
  shows "pf_config r = c \<and> pf_errors r = [] \<and> pf_files r \<noteq> []
       \<and> (\<forall>f\<in>set (pf_files r). ff_url f \<noteq> None \<and> ff_hash f \<noteq> None)"
proof -
  from assms obtain p m files out where
    files: "files \<noteq> []"
    and cp: "copyFontFiles rt fp fs files (md_family m) = (fs', Inr out)"
    and r: "r = \<lparr> pf_config = c, pf_metadata = m, pf_files = out, pf_errors = [] \<rparr>"
    by (auto simp: processFont_def split: option.splits sum.splits if_splits prod.splits)
  from copyLoop_shape[OF cp[unfolded copyFontFiles_def]] files
  have "out \<noteq> []" "\<forall>f\<in>set out. ff_url f \<noteq> None \<and> ff_hash f \<noteq> None" by auto
  with r show ?thesis by simp
qed

lemma processLoop_inv:
  assumes "\<forall>pf\<in>set acc. P pf"
      and "\<And>fs c fs' r. processFont rt fp fs c = (fs', Inr r) \<Longrightarrow> P r"
      and "\<And>c msg. P (failedEntry c msg)"
  shows "\<forall>pf\<in>set (snd (processLoop rt fp fs cs acc)). P pf"
  using assms(1)
proof (induction cs arbitrary: fs acc)
  case Nil
  then show ?case by simp
next
  case (Cons c cs)
  show ?case
  proof (cases "processFont rt fp fs c")
    case (Pair fs1 res)
    show ?thesis
    proof (cases res)
      case (Inl msg)
      have "\<forall>pf\<in>set (acc @ [failedEntry c msg]). P pf"
        using Cons.prems assms(3) by simp
      from Cons.IH[OF this] Inl Pair show ?thesis by simp
    next
      case (Inr r)
      with Pair assms(2) have "P r" by blast
      with Cons.prems have "\<forall>pf\<in>set (acc @ [r]). P pf" by simp
      from Cons.IH[OF this] Inr Pair show ?thesis by simp
    qed
  qed
qed

text \<open>
  C2. Every entry that \<^verbatim>\<open>processAll\<close> returns either has errors and no files, or has no
  errors, at least one file, and every file published (with URL and hash).
\<close>

theorem processAll_all_or_nothing:
  assumes "pf \<in> set (snd (processAll rt fp fs))"
  shows "(pf_errors pf \<noteq> [] \<longrightarrow> pf_files pf = [])
       \<and> (pf_errors pf = [] \<longrightarrow>
            pf_files pf \<noteq> [] \<and> (\<forall>f\<in>set (pf_files pf). ff_url f \<noteq> None \<and> ff_hash f \<noteq> None))"
proof -
  let ?P = "\<lambda>pf. (pf_errors pf \<noteq> [] \<longrightarrow> pf_files pf = [])
       \<and> (pf_errors pf = [] \<longrightarrow>
            pf_files pf \<noteq> [] \<and> (\<forall>f\<in>set (pf_files pf). ff_url f \<noteq> None \<and> ff_hash f \<noteq> None))"
  have "\<forall>pf\<in>set (snd (processLoop rt fp fs (sortBy comparePriority (opt_fonts (fp_options fp))) [])). ?P pf"
  proof (rule processLoop_inv)
    show "\<forall>pf\<in>set []. ?P pf" by simp
  next
    fix fs c fs' r assume "processFont rt fp fs c = (fs', Inr r)"
    from processFont_Inr[OF this] show "?P r" by simp
  next
    fix c msg show "?P (failedEntry c msg)" by (simp add: failedEntry_def)
  qed
  with assms show ?thesis by (simp add: processAll_def)
qed





lemma two_font_run:
  "snd (processAll demoRuntime (demoProcessor [demoRequest, missingRequest]) demoFS)
     = [missingEntry, demoEntry]"
  by code_simp

theorem processAll_all_or_nothing_witness:
  "missingEntry \<in> set (snd (processAll demoRuntime (demoProcessor [demoRequest, missingRequest]) demoFS))
   \<and> pf_errors missingEntry \<noteq> [] \<and> pf_files missingEntry = []
   \<and> demoEntry \<in> set (snd (processAll demoRuntime (demoProcessor [demoRequest, missingRequest]) demoFS))
   \<and> pf_errors demoEntry = [] \<and> pf_files demoEntry \<noteq> []"
proof -
  have m: "missingEntry \<in> set (snd (processAll demoRuntime (demoProcessor [demoRequest, missingRequest]) demoFS))"
    and d: "demoEntry \<in> set (snd (processAll demoRuntime (demoProcessor [demoRequest, missingRequest]) demoFS))"
    by (simp_all add: two_font_run)
  have e: "pf_errors missingEntry \<noteq> []" "pf_errors demoEntry = []"
    by (simp_all add: missingEntry_def failedEntry_def demoEntry_def)
  from processAll_all_or_nothing[OF m] processAll_all_or_nothing[OF d] m d e
  show ?thesis by blast
qed



section \<open>Verification: the end-to-end scenario\<close>

lemma demo_run: "snd (processAll demoRuntime (demoProcessor [demoRequest]) demoFS) = [demoEntry]"
  by code_simp

lemma demo_css:
  "generateFontFaces (defaultOptions [demoRequest]) [demoEntry] =
     Inr (''/* Demo - pkg-a */'' @ nl @ demoFace @ demoFace @ demoFallbackFace @ nl)"
  by code_simp

text \<open>
  C1. In the scenario the pipeline publishes the one font file twice: with the single
  axis \<^verbatim>\<open>wght\<close> the joined-axes pattern and the per-axis pattern are the same pattern, both
  match the file, and matches are collected without removing duplicates. The entry
  carries two identical published files with the URL
  \<^verbatim>\<open>/fonts/demo-latin-normal-67583cbc.woff2\<close>, and the stylesheet has two identical face
  blocks for it, each with \<^verbatim>\<open>font-weight: 400 700;\<close> and the \<^verbatim>\<open>woff2-variations\<close> format.
\<close>

theorem demo_pipeline_publishes_twice:
  "snd (processAll demoRuntime (demoProcessor [demoRequest]) demoFS) = [demoEntry]
   \<and> pf_files demoEntry = [demoPublished, demoPublished]
   \<and> ff_url demoPublished = Some ''/fonts/demo-latin-normal-67583cbc.woff2''
   \<and> generateFontFaces (defaultOptions [demoRequest])
         (snd (processAll demoRuntime (demoProcessor [demoRequest]) demoFS)) =
       Inr (''/* Demo - pkg-a */'' @ nl @ demoFace @ demoFace @ demoFallbackFace @ nl)"
  unfolding demo_run demo_css by (simp add: demoEntry_def demoPublished_def)

section \<open>Verification: fallback metrics\<close>

text \<open>
  The exported lookup honours a non-empty custom fallback in every tier: the result is
  the result without a custom fallback, with the stack replaced.
\<close>

lemma getFallbackMetricsForFont_custom:
  assumes "c \<noteq> []"
  shows "getFallbackMetricsForFont f (Some c) = (getFallbackMetricsForFont f None)\<lparr>fallback := c\<rparr>"
  using assms
  by (simp add: getFallbackMetricsForFont_def truthyStr_def orElse_def mkMetrics_def Let_def
           split: option.splits)

text \<open>
  C7. The lookup that the stylesheet generator calls returns the table entry unchanged
  on an exact match: for the family Inter and the custom fallback \<^verbatim>\<open>system-ui\<close> the stack
  is the table's, not the custom string, while the exported lookup returns the same
  numbers with the custom stack.
\<close>

theorem getFallbackMetrics_ignores_custom:
  "fallback (getFallbackMetrics ''Inter'' (Some ''system-ui''))
     = ''Arial, Helvetica Neue, Helvetica, sans-serif''
   \<and> getFallbackMetricsForFont ''Inter'' (Some ''system-ui'')
     = (getFallbackMetrics ''Inter'' (Some ''system-ui''))\<lparr>fallback := ''system-ui''\<rparr>"
  by code_simp

section \<open>Verification: the configuration hash\<close>

lemma defaultCompare_key: "defaultCompare toStr a b \<le> 0 \<longleftrightarrow> toStr a \<le> toStr b"
  by (auto simp: defaultCompare_def)

lemma jsSortNums_sort_key: "jsSortNums xs = sort_key numToString xs"
  unfolding jsSortNums_def by (rule sortBy_sort_key) (rule defaultCompare_key)

lemma jsSortStrs_sort_key: "jsSortStrs xs = sort_key (\<lambda>s. s) xs"
  unfolding jsSortStrs_def by (rule sortBy_sort_key) (rule defaultCompare_key)

lemma natToDigits_inj: "natToDigits m = natToDigits n \<Longrightarrow> m = n"
  by (metis natToDigits_props)

lemma natToDigits_no_minus: "CHR ''-'' \<notin> set (natToDigits n)"
  using natToDigits_props[of n] isDigit_not_special by blast

lemma numToString_inj: "inj numToString"
proof (rule injI)
  fix i j :: int assume e: "numToString i = numToString j"
  have hd: "hd (natToDigits n) \<noteq> CHR ''-''" for n
    using natToDigits_props[of n] natToDigits_no_minus[of n] by (cases "natToDigits n") auto
  show "i = j"
  proof (cases "i < 0"; cases "j < 0")
    assume "i < 0" "j < 0"
    with e have "natToDigits (nat (- i)) = natToDigits (nat (- j))" by (simp add: numToString_def)
    from natToDigits_inj[OF this] \<open>i < 0\<close> \<open>j < 0\<close> show ?thesis by simp
  next
    assume "i < 0" "\<not> j < 0"
    with e have "natToDigits (nat j) = CHR ''-'' # natToDigits (nat (- i))"
      by (simp add: numToString_def)
    then have "hd (natToDigits (nat j)) = CHR ''-''" by simp
    with hd[of "nat j"] show ?thesis by blast
  next
    assume "\<not> i < 0" "j < 0"
    with e have "natToDigits (nat i) = CHR ''-'' # natToDigits (nat (- j))"
      by (simp add: numToString_def)
    then have "hd (natToDigits (nat i)) = CHR ''-''" by simp
    with hd[of "nat i"] show ?thesis by blast
  next
    assume "\<not> i < 0" "\<not> j < 0"
    with e have "natToDigits (nat i) = natToDigits (nat j)" by (simp add: numToString_def)
    from natToDigits_inj[OF this] \<open>\<not> i < 0\<close> \<open>\<not> j < 0\<close> show ?thesis by simp
  qed
qed

lemma jsSortNums_perm: "mset xs = mset ys \<Longrightarrow> jsSortNums xs = jsSortNums ys"
  unfolding jsSortNums_sort_key
  by (rule sort_key_unique) (auto intro: inj_on_subset[OF numToString_inj])

lemma jsSortStrs_perm: "mset xs = mset ys \<Longrightarrow> jsSortStrs xs = jsSortStrs ys"
  unfolding jsSortStrs_sort_key
  by (rule sort_key_unique) (auto simp: inj_on_def)

lemma map_option_perm:
  assumes "map_option mset a = map_option mset b" "\<And>xs ys. mset xs = mset ys \<Longrightarrow> srt xs = srt ys"
  shows "map_option srt a = map_option srt b"
proof (cases a)
  case None
  with assms(1) show ?thesis by (cases b) simp_all
next
  case (Some xs)
  with assms(1) obtain ys where "b = Some ys" "mset xs = mset ys" by (cases b) simp_all
  with Some assms(2)[of xs ys] show ?thesis by simp
qed

lemma normalizeFont_perm: "sameUpToArrayOrder a b \<Longrightarrow> normalizeFont a = normalizeFont b"
  unfolding sameUpToArrayOrder_def normalizeFont_def
  using map_option_perm[of "cfg_weights a" "cfg_weights b" jsSortNums, OF _ jsSortNums_perm]
        map_option_perm[of "cfg_styles a" "cfg_styles b" jsSortStrs, OF _ jsSortStrs_perm]
        map_option_perm[of "cfg_subsets a" "cfg_subsets b" jsSortStrs, OF _ jsSortStrs_perm]
        map_option_perm[of "cfg_axes a" "cfg_axes b" jsSortStrs, OF _ jsSortStrs_perm]
  by simp

lemma comparePackage_key:
  "comparePackage collKey a b \<le> 0 \<longleftrightarrow> collKey (cd_package a) \<le> collKey (cd_package b)"
  by (auto simp: comparePackage_def localeCompare_def)

lemma sortBy_comparePackage:
  "sortBy (comparePackage collKey) xs = sort_key (\<lambda>d. collKey (cd_package d)) xs"
  by (rule sortBy_sort_key) (rule comparePackage_key)

lemma config_texts:
  "configString codeUnitKey [demoRequest] = textDemo"
  "configString codeUnitKey [demoRequest, staticRequest] = textDemoStatic"
  "configString codeUnitKey [demoBlock] = textDemoBlock"
  "configString codeUnitKey [twinA, twinB] = textTwinAB"
  "configString codeUnitKey [twinB, twinA] = textTwinBA"
  by code_simp+

text \<open>
  Reordering the array-valued properties of the requests never changes the hash, and
  reordering the request list does not change it when the package identifiers are
  pairwise distinct under the collation.
\<close>

lemma configHash_array_order:
  assumes "list_all2 sameUpToArrayOrder fonts fonts1"
  shows "fst (generateConfigHash rt collKey fonts1) = fst (generateConfigHash rt collKey fonts)"
proof -
  from assms have "map normalizeFont fonts1 = map normalizeFont fonts"
    by (induction rule: list_all2_induct) (auto dest: normalizeFont_perm)
  then show ?thesis by (simp add: generateConfigHash_def configString_def)
qed

lemma configHash_list_order:
  assumes "mset fonts2 = mset fonts"
      and "distinct (map (\<lambda>f. collKey (cfg_package f)) fonts)"
  shows "fst (generateConfigHash rt collKey fonts2) = fst (generateConfigHash rt collKey fonts)"
proof -
  from assms(1) have m: "mset (map normalizeFont fonts) = mset (map normalizeFont fonts2)"
    by (metis mset_map)
  have "map (\<lambda>d. collKey (cd_package d)) (map normalizeFont fonts)
          = map (\<lambda>f. collKey (cfg_package f)) fonts"
    by (simp add: normalizeFont_def o_def)
  with assms(2) have "distinct (map (\<lambda>d. collKey (cd_package d)) (map normalizeFont fonts))"
    by (simp only:)
  then have "inj_on (\<lambda>d. collKey (cd_package d)) (set (map normalizeFont fonts))"
    by (rule distinct_map[THEN iffD1, THEN conjunct2])
  from sort_key_unique[OF m this]
  show ?thesis by (simp add: generateConfigHash_def configString_def sortBy_comparePackage)
qed

lemma configHash_order_demo:
  "fst (generateConfigHash demoRuntime codeUnitKey [staticRequest, demoReordered])
     = fst (generateConfigHash demoRuntime codeUnitKey [demoRequest, staticRequest])"
proof -
  have a: "list_all2 sameUpToArrayOrder [demoRequest, staticRequest] [demoReordered, staticRequest]"
    by (simp add: sameUpToArrayOrder_def demoReordered_def demoRequest_def add_mset_commute)
  have b: "mset [staticRequest, demoReordered] = mset [demoReordered, staticRequest]"
    by (simp add: add_mset_commute)
  have c: "distinct (map (\<lambda>f. codeUnitKey (cfg_package f)) [demoReordered, staticRequest])"
    by (simp add: codeUnitKey_def demoReordered_def demoRequest_def staticRequest_def)
  from configHash_list_order[OF b c, of demoRuntime] configHash_array_order[OF a, of demoRuntime codeUnitKey]
  show ?thesis by simp
qed

text \<open>
  C3. Two requests for the same package, \<^verbatim>\<open>pkg-t\<close>, under the families Twin A and Twin B:
  the sort by package name compares them equal and, being stable, leaves them in the
  order of the request list. The list in the other order is a permutation of it, gives
  another text to hash, and another SHA-256.
\<close>

theorem generateConfigHash_same_package_order:
  "mset [twinB, twinA] = mset [twinA, twinB]
   \<and> configString codeUnitKey [twinB, twinA] \<noteq> configString codeUnitKey [twinA, twinB]
   \<and> fst (generateConfigHash demoRuntime codeUnitKey [twinB, twinA])
       \<noteq> fst (generateConfigHash demoRuntime codeUnitKey [twinA, twinB])"
proof -
  have "textTwinBA \<noteq> textTwinAB" by code_simp
  moreover have "demoSha256 textTwinBA \<noteq> demoSha256 textTwinAB" by code_simp
  ultimately show ?thesis
    by (simp add: generateConfigHash_def config_texts demoRuntime_def add_mset_commute)
qed

section \<open>Verification: the configuration text determines the hashed fields\<close>

lemma hexVal_hexDigit: "k < 16 \<Longrightarrow> hexVal (hexDigit k) = k"
  by (auto simp: hexVal_def hexDigit_def Let_def)

lemma unescape1_esc: "unescape1 (jsonEscapeChar c @ x) = Some (c, x)"
proof -
  let ?n = "of_char c :: nat"
  have small: "?n < 32 \<Longrightarrow> char_of (16 * hexVal (hexDigit (?n div 16)) + hexVal (hexDigit (?n mod 16))) = c"
  proof -
    assume "?n < 32"
    then have "?n div 16 < 16" "?n mod 16 < 16" by auto
    then show ?thesis by (simp add: hexVal_hexDigit)
  qed
  show ?thesis
    using small
    by (auto simp: jsonEscapeChar_def unescape1_def Let_def backslash_def dquote_def)
qed

text \<open>Escaped characters, strings, booleans and numerals are uniquely readable.\<close>

lemma esc_prefix: "jsonEscapeChar c @ x = jsonEscapeChar d @ y \<Longrightarrow> c = d \<and> x = y"
  by (metis unescape1_esc option.inject prod.inject)

lemma esc_not_quote: "jsonEscapeChar c @ x \<noteq> CHR 0x22 # y"
  by (auto simp: jsonEscapeChar_def Let_def backslash_def dquote_def)

lemma body_prefix:
  "concat (map jsonEscapeChar s) @ CHR 0x22 # r = concat (map jsonEscapeChar t) @ CHR 0x22 # r'
     \<Longrightarrow> s = t \<and> r = r'"
proof (induction s arbitrary: t)
  case Nil
  then show ?case using esc_not_quote by (cases t) (auto simp: eq_commute[of "CHR 0x22 # _"])
next
  case (Cons c s)
  show ?case
  proof (cases t)
    case Nil
    with Cons.prems esc_not_quote show ?thesis by auto
  next
    case (Cons d t')
    with Cons.prems have "jsonEscapeChar c @ (concat (map jsonEscapeChar s) @ CHR 0x22 # r)
        = jsonEscapeChar d @ (concat (map jsonEscapeChar t') @ CHR 0x22 # r')" by simp
    from esc_prefix[OF this] Cons.IH[of t'] Cons show ?thesis by simp
  qed
qed

lemma jsonString_prefix: "jsonString s @ r = jsonString t @ r' \<Longrightarrow> s = t \<and> r = r'"
  using body_prefix[of s r t r'] by (simp add: jsonString_def dquote_def)

lemma jsonBool_prefix: "jsonBool a @ r = jsonBool b @ r' \<Longrightarrow> a = b \<and> r = r'"
  by (auto simp: jsonBool_def split: if_splits)

lemma takeWhile_digits:
  "\<forall>c\<in>set ds. isDigit c \<Longrightarrow> endsNumber r \<Longrightarrow> takeWhile isDigit (ds @ r) = ds"
  by (induction ds) (auto simp: endsNumber_def split: list.splits)

lemma natToDigits_prefix:
  assumes "natToDigits a @ r = natToDigits b @ r'" "endsNumber r" "endsNumber r'"
  shows "a = b \<and> r = r'"
proof -
  have "takeWhile isDigit (natToDigits a @ r) = natToDigits a"
    using natToDigits_props[of a] assms(2) by (intro takeWhile_digits) auto
  moreover have "takeWhile isDigit (natToDigits b @ r') = natToDigits b"
    using natToDigits_props[of b] assms(3) by (intro takeWhile_digits) auto
  ultimately have "natToDigits a = natToDigits b" using assms(1) by simp
  with assms(1) show ?thesis by (auto dest: natToDigits_inj)
qed

lemma natToDigits_hd: "\<exists>c ds. natToDigits n = c # ds \<and> isDigit c"
  using natToDigits_props[of n] by (cases "natToDigits n") auto

lemma numToString_prefix:
  assumes "numToString a @ r = numToString b @ r'" "endsNumber r" "endsNumber r'"
  shows "a = b \<and> r = r'"
proof -
  have nd: "\<not> isDigit (CHR ''-'')" by (simp add: isDigit_def)
  show ?thesis
  proof (cases "a < 0"; cases "b < 0")
    assume n: "a < 0" "b < 0"
    with assms(1) have "natToDigits (nat (- a)) @ r = natToDigits (nat (- b)) @ r'"
      by (simp add: numToString_def)
    from natToDigits_prefix[OF this assms(2,3)] n show ?thesis by auto
  next
    assume n: "a < 0" "\<not> b < 0"
    obtain c ds where "natToDigits (nat b) = c # ds" "isDigit c" using natToDigits_hd by blast
    with assms(1) n nd show ?thesis by (auto simp: numToString_def)
  next
    assume n: "\<not> a < 0" "b < 0"
    obtain c ds where "natToDigits (nat a) = c # ds" "isDigit c" using natToDigits_hd by blast
    with assms(1) n nd show ?thesis by (auto simp: numToString_def)
  next
    assume n: "\<not> a < 0" "\<not> b < 0"
    with assms(1) have "natToDigits (nat a) @ r = natToDigits (nat b) @ r'"
      by (simp add: numToString_def)
    from natToDigits_prefix[OF this assms(2,3)] n show ?thesis by auto
  qed
qed

text \<open>Arrays.\<close>

lemma joinWith_arrayRest: "joinWith '','' (x # xs) @ '']'' = x @ arrayRest xs"
  by (induction xs arbitrary: x) simp_all

lemma jsonArray_arrayRest:
  "jsonArray xs = (case xs of [] \<Rightarrow> ''[]'' | x # xs' \<Rightarrow> ''['' @ x @ arrayRest xs')"
  using joinWith_arrayRest by (cases xs) (simp_all add: jsonArray_def)

lemma arrayRest_start: "\<exists>c t. arrayRest xs @ r = c # t \<and> (c = CHR '','' \<or> c = CHR '']'')"
  by (cases xs) auto

lemma arrayRest_endsNumber: "endsNumber (arrayRest xs @ r)"
  by (cases xs) (auto simp: endsNumber_def isDigit_def)

lemma arrayRest_prefix:
  assumes "\<And>a b xs ys r r'. enc a @ arrayRest xs @ r = enc b @ arrayRest ys @ r'
             \<Longrightarrow> a = b \<and> arrayRest xs @ r = arrayRest ys @ r'"
  shows "arrayRest (map enc as) @ r = arrayRest (map enc bs) @ r' \<Longrightarrow> as = bs \<and> r = r'"
proof (induction as arbitrary: bs)
  case Nil
  then show ?case by (cases bs) auto
next
  case (Cons a as)
  show ?case
  proof (cases bs)
    case Nil
    with Cons.prems show ?thesis by auto
  next
    case (Cons b bs')
    with Cons.prems have "enc a @ arrayRest (map enc as) @ r = enc b @ arrayRest (map enc bs') @ r'"
      by simp
    from assms[OF this] Cons.IH[of bs'] Cons show ?thesis by simp
  qed
qed

lemma jsonArray_prefix:
  assumes "\<And>a b xs ys r r'. enc a @ arrayRest xs @ r = enc b @ arrayRest ys @ r'
             \<Longrightarrow> a = b \<and> arrayRest xs @ r = arrayRest ys @ r'"
      and "\<And>a. \<exists>c t. enc a = c # t \<and> c \<noteq> CHR '']''"
      and "jsonArray (map enc as) @ r = jsonArray (map enc bs) @ r'"
  shows "as = bs \<and> r = r'"
proof (cases as; cases bs)
  assume "as = []" "bs = []"
  with assms(3) show ?thesis by (simp add: jsonArray_def)
next
  fix b bs' assume h: "as = []" "bs = b # bs'"
  obtain c t where "enc b = c # t" "c \<noteq> CHR '']''" using assms(2) by blast
  with assms(3) h show ?thesis by (simp add: jsonArray_arrayRest)
next
  fix a as' assume h: "as = a # as'" "bs = []"
  obtain c t where "enc a = c # t" "c \<noteq> CHR '']''" using assms(2) by blast
  with assms(3) h show ?thesis by (simp add: jsonArray_arrayRest)
next
  fix a as' b bs' assume h: "as = a # as'" "bs = b # bs'"
  with assms(3) have e: "enc a @ arrayRest (map enc as') @ r = enc b @ arrayRest (map enc bs') @ r'"
    by (simp add: jsonArray_arrayRest)
  from assms(1)[OF e] have ab: "a = b" and rest: "arrayRest (map enc as') @ r = arrayRest (map enc bs') @ r'"
    by simp_all
  from arrayRest_prefix[of enc as' r bs' r', OF assms(1) rest] ab h show ?thesis by simp
qed

lemma jsonString_hd: "\<exists>c t. jsonString s = c # t \<and> c \<noteq> CHR '']''"
  by (simp add: jsonString_def dquote_def)

lemma numToString_hd: "\<exists>c t. numToString n = c # t \<and> c \<noteq> CHR '']''"
proof -
  obtain c ds where "natToDigits (nat (if n < 0 then - n else n)) = c # ds" "isDigit c"
    using natToDigits_hd by blast
  then show ?thesis by (auto simp: numToString_def isDigit_def)
qed

lemma stringArray_prefix:
  assumes "jsonArray (map jsonString as) @ r = jsonArray (map jsonString bs) @ r'"
  shows "as = bs \<and> r = r'"
proof (rule jsonArray_prefix[of jsonString, OF _ _ assms])
  fix a b xs ys r r'
  assume "jsonString a @ arrayRest xs @ r = jsonString b @ arrayRest ys @ r'"
  then show "a = b \<and> arrayRest xs @ r = arrayRest ys @ r'" by (rule jsonString_prefix)
next
  fix a show "\<exists>c t. jsonString a = c # t \<and> c \<noteq> CHR '']''" by (rule jsonString_hd)
qed

lemma numberArray_prefix:
  assumes "jsonArray (map numToString as) @ r = jsonArray (map numToString bs) @ r'"
  shows "as = bs \<and> r = r'"
proof (rule jsonArray_prefix[of numToString, OF _ _ assms])
  fix a b xs ys r r'
  assume "numToString a @ arrayRest xs @ r = numToString b @ arrayRest ys @ r'"
  from numToString_prefix[OF this arrayRest_endsNumber arrayRest_endsNumber]
  show "a = b \<and> arrayRest xs @ r = arrayRest ys @ r'" .
next
  fix a show "\<exists>c t. numToString a = c # t \<and> c \<noteq> CHR '']''" by (rule numToString_hd)
qed

text \<open>Objects: the text of a normalised request, property by property.\<close>

lemma joinWith_commas: "joinWith '','' (x # xs) = x @ concat (map (\<lambda>v. '','' @ v) xs)"
  by (induction xs arbitrary: x) simp_all

lemma commas_jsonField: "concat (map ((#) CHR '','') (jsonField k v)) = optField k v"
  by (cases v) (simp_all add: jsonField_def optField_def)

lemma jsonConfigData_tail:
  "jsonConfigData d @ r =
     ''{'' @ jsonString ''package'' @ '':'' @ jsonString (cd_package d)
     @ '','' @ jsonString ''family'' @ '':'' @ jsonString (cd_family d)
     @ '','' @ jsonString ''variable'' @ '':'' @ jsonBool (cd_variable d)
     @ tailWeights d r"
proof -
  have f: "jsonField k (Some t) = [jsonString k @ '':'' @ t]" for k t
    by (simp add: jsonField_def)
  show ?thesis
    unfolding jsonConfigData_def jsonObject_def f concat.simps append_Cons append_Nil joinWith_commas
    by (simp add: commas_jsonField tailWeights_def tailStyles_def tailSubsets_def tailAxes_def
          tailPreload_def tailDisplay_def tailPriority_def)
qed

lemma key_texts:
  "jsonString ''priority'' = CHR 0x22 # ''priority'' @ [CHR 0x22]"
  "jsonString ''display'' = CHR 0x22 # ''display'' @ [CHR 0x22]"
  "jsonString ''preload'' = CHR 0x22 # ''preload'' @ [CHR 0x22]"
  "jsonString ''axes'' = CHR 0x22 # ''axes'' @ [CHR 0x22]"
  "jsonString ''subsets'' = CHR 0x22 # ''subsets'' @ [CHR 0x22]"
  "jsonString ''styles'' = CHR 0x22 # ''styles'' @ [CHR 0x22]"
  "jsonString ''weights'' = CHR 0x22 # ''weights'' @ [CHR 0x22]"
  by (simp_all add: jsonString_def jsonEscapeChar_def dquote_def backslash_def Let_def)

lemma endsNumber_brace: "endsNumber (CHR ''}'' # r)"
  by (simp add: endsNumber_def isDigit_def)

lemma tailStart_mono: "tailStart ks s \<Longrightarrow> set ks \<subseteq> set ks' \<Longrightarrow> tailStart ks' s"
  by (auto simp: tailStart_def)

lemma tailPriority_start: "tailStart [''pri''] (tailPriority d r)"
  by (cases "cd_priority d") (simp_all add: tailPriority_def optField_def key_texts tailStart_def)

lemma tailDisplay_start: "tailStart [''dis'', ''pri''] (tailDisplay d r)"
proof (cases "cd_display d")
  case None
  then show ?thesis using tailStart_mono[OF tailPriority_start[of d r], of "[''dis'', ''pri'']"]
    by (simp add: tailDisplay_def optField_def)
next
  case (Some v)
  then show ?thesis by (simp add: tailDisplay_def optField_def key_texts tailStart_def)
qed

lemma tailPreload_start: "tailStart [''pre'', ''dis'', ''pri''] (tailPreload d r)"
proof (cases "cd_preload d")
  case None
  then show ?thesis using tailStart_mono[OF tailDisplay_start[of d r], of "[''pre'', ''dis'', ''pri'']"]
    by (simp add: tailPreload_def optField_def)
next
  case (Some v)
  then show ?thesis by (simp add: tailPreload_def optField_def key_texts tailStart_def)
qed

lemma tailAxes_start: "tailStart [''axe'', ''pre'', ''dis'', ''pri''] (tailAxes d r)"
proof (cases "cd_axes d")
  case None
  then show ?thesis using tailStart_mono[OF tailPreload_start[of d r], of "[''axe'', ''pre'', ''dis'', ''pri'']"]
    by (simp add: tailAxes_def optField_def)
next
  case (Some v)
  then show ?thesis by (simp add: tailAxes_def optField_def key_texts tailStart_def)
qed

lemma tailSubsets_start: "tailStart [''sub'', ''axe'', ''pre'', ''dis'', ''pri''] (tailSubsets d r)"
proof (cases "cd_subsets d")
  case None
  then show ?thesis using tailStart_mono[OF tailAxes_start[of d r], of "[''sub'', ''axe'', ''pre'', ''dis'', ''pri'']"]
    by (simp add: tailSubsets_def optField_def)
next
  case (Some v)
  then show ?thesis by (simp add: tailSubsets_def optField_def key_texts tailStart_def)
qed

lemma tailStyles_start: "tailStart [''sty'', ''sub'', ''axe'', ''pre'', ''dis'', ''pri''] (tailStyles d r)"
proof (cases "cd_styles d")
  case None
  then show ?thesis using tailStart_mono[OF tailSubsets_start[of d r], of "[''sty'', ''sub'', ''axe'', ''pre'', ''dis'', ''pri'']"]
    by (simp add: tailStyles_def optField_def)
next
  case (Some v)
  then show ?thesis by (simp add: tailStyles_def optField_def key_texts tailStart_def)
qed

lemma tailWeights_start: "tailStart [''wei'', ''sty'', ''sub'', ''axe'', ''pre'', ''dis'', ''pri''] (tailWeights d r)"
proof (cases "cd_weights d")
  case None
  then show ?thesis using tailStart_mono[OF tailStyles_start[of d r], of "[''wei'', ''sty'', ''sub'', ''axe'', ''pre'', ''dis'', ''pri'']"]
    by (simp add: tailWeights_def optField_def)
next
  case (Some v)
  then show ?thesis by (simp add: tailWeights_def optField_def key_texts tailStart_def)
qed

lemma tailPriority_inj:
  assumes "tailPriority d r = tailPriority d' r'"
  shows "cd_priority d = cd_priority d' \<and> r = r'"
proof (cases "cd_priority d"; cases "cd_priority d'")
  fix a b assume h: "cd_priority d = Some a" "cd_priority d' = Some b"
  with assms have "numToString a @ CHR ''}'' # r = numToString b @ CHR ''}'' # r'"
    by (simp add: tailPriority_def optField_def)
  from numToString_prefix[OF this endsNumber_brace endsNumber_brace] h show ?thesis by auto
next
  assume h: "cd_priority d = None" "cd_priority d' = None"
  with assms show ?thesis by (auto simp: tailPriority_def optField_def)
next
  fix b assume h: "cd_priority d = None" "cd_priority d' = Some b"
  with assms show ?thesis by (simp add: tailPriority_def optField_def)
next
  fix a assume h: "cd_priority d = Some a" "cd_priority d' = None"
  with assms show ?thesis by (simp add: tailPriority_def optField_def)
qed

lemma tailDisplay_inj:
  assumes "tailDisplay d r = tailDisplay d' r'"
  shows "cd_display d = cd_display d' \<and> cd_priority d = cd_priority d' \<and> r = r'"
proof (cases "cd_display d"; cases "cd_display d'")
  fix a b assume h: "cd_display d = Some a" "cd_display d' = Some b"
  with assms have "jsonString a @ tailPriority d r = jsonString b @ tailPriority d' r'"
    by (simp add: tailDisplay_def optField_def)
  from jsonString_prefix[OF this] have ab: "a = b" and t: "tailPriority d r = tailPriority d' r'" by simp_all
  from tailPriority_inj[OF t] ab h show ?thesis by simp
next
  assume h: "cd_display d = None" "cd_display d' = None"
  with assms have t: "tailPriority d r = tailPriority d' r'" by (simp add: tailDisplay_def optField_def)
  from tailPriority_inj[OF t] h show ?thesis by simp
next
  fix b assume h: "cd_display d = None" "cd_display d' = Some b"
  with assms have "tailPriority d r = CHR '','' # CHR 0x22 # ''display'' @ (CHR 0x22 # '':'' @ jsonString b @ tailPriority d' r')"
    by (simp add: tailDisplay_def optField_def key_texts)
  with tailPriority_start[of d r] show ?thesis by (auto simp: tailStart_def)
next
  fix a assume h: "cd_display d = Some a" "cd_display d' = None"
  with assms have "tailPriority d' r' = CHR '','' # CHR 0x22 # ''display'' @ (CHR 0x22 # '':'' @ jsonString a @ tailPriority d r)"
    by (simp add: tailDisplay_def optField_def key_texts)
  with tailPriority_start[of d' r'] show ?thesis by (auto simp: tailStart_def)
qed

lemma tailPreload_inj:
  assumes "tailPreload d r = tailPreload d' r'"
  shows "cd_preload d = cd_preload d' \<and> cd_display d = cd_display d' \<and> cd_priority d = cd_priority d' \<and> r = r'"
proof (cases "cd_preload d"; cases "cd_preload d'")
  fix a b assume h: "cd_preload d = Some a" "cd_preload d' = Some b"
  with assms have "jsonBool a @ tailDisplay d r = jsonBool b @ tailDisplay d' r'"
    by (simp add: tailPreload_def optField_def)
  from jsonBool_prefix[OF this] have ab: "a = b" and t: "tailDisplay d r = tailDisplay d' r'" by simp_all
  from tailDisplay_inj[OF t] ab h show ?thesis by simp
next
  assume h: "cd_preload d = None" "cd_preload d' = None"
  with assms have t: "tailDisplay d r = tailDisplay d' r'" by (simp add: tailPreload_def optField_def)
  from tailDisplay_inj[OF t] h show ?thesis by simp
next
  fix b assume h: "cd_preload d = None" "cd_preload d' = Some b"
  with assms have "tailDisplay d r = CHR '','' # CHR 0x22 # ''preload'' @ (CHR 0x22 # '':'' @ jsonBool b @ tailDisplay d' r')"
    by (simp add: tailPreload_def optField_def key_texts)
  with tailDisplay_start[of d r] show ?thesis by (auto simp: tailStart_def)
next
  fix a assume h: "cd_preload d = Some a" "cd_preload d' = None"
  with assms have "tailDisplay d' r' = CHR '','' # CHR 0x22 # ''preload'' @ (CHR 0x22 # '':'' @ jsonBool a @ tailDisplay d r)"
    by (simp add: tailPreload_def optField_def key_texts)
  with tailDisplay_start[of d' r'] show ?thesis by (auto simp: tailStart_def)
qed

lemma tailAxes_inj:
  assumes "tailAxes d r = tailAxes d' r'"
  shows "cd_axes d = cd_axes d' \<and> cd_preload d = cd_preload d' \<and> cd_display d = cd_display d' \<and> cd_priority d = cd_priority d' \<and> r = r'"
proof (cases "cd_axes d"; cases "cd_axes d'")
  fix a b assume h: "cd_axes d = Some a" "cd_axes d' = Some b"
  with assms have "jsonArray (map jsonString a) @ tailPreload d r = jsonArray (map jsonString b) @ tailPreload d' r'"
    by (simp add: tailAxes_def optField_def)
  from stringArray_prefix[OF this] have ab: "a = b" and t: "tailPreload d r = tailPreload d' r'" by simp_all
  from tailPreload_inj[OF t] ab h show ?thesis by simp
next
  assume h: "cd_axes d = None" "cd_axes d' = None"
  with assms have t: "tailPreload d r = tailPreload d' r'" by (simp add: tailAxes_def optField_def)
  from tailPreload_inj[OF t] h show ?thesis by simp
next
  fix b assume h: "cd_axes d = None" "cd_axes d' = Some b"
  with assms have "tailPreload d r = CHR '','' # CHR 0x22 # ''axes'' @ (CHR 0x22 # '':'' @ jsonArray (map jsonString b) @ tailPreload d' r')"
    by (simp add: tailAxes_def optField_def key_texts)
  with tailPreload_start[of d r] show ?thesis by (auto simp: tailStart_def)
next
  fix a assume h: "cd_axes d = Some a" "cd_axes d' = None"
  with assms have "tailPreload d' r' = CHR '','' # CHR 0x22 # ''axes'' @ (CHR 0x22 # '':'' @ jsonArray (map jsonString a) @ tailPreload d r)"
    by (simp add: tailAxes_def optField_def key_texts)
  with tailPreload_start[of d' r'] show ?thesis by (auto simp: tailStart_def)
qed

lemma tailSubsets_inj:
  assumes "tailSubsets d r = tailSubsets d' r'"
  shows "cd_subsets d = cd_subsets d' \<and> cd_axes d = cd_axes d' \<and> cd_preload d = cd_preload d' \<and> cd_display d = cd_display d' \<and> cd_priority d = cd_priority d' \<and> r = r'"
proof (cases "cd_subsets d"; cases "cd_subsets d'")
  fix a b assume h: "cd_subsets d = Some a" "cd_subsets d' = Some b"
  with assms have "jsonArray (map jsonString a) @ tailAxes d r = jsonArray (map jsonString b) @ tailAxes d' r'"
    by (simp add: tailSubsets_def optField_def)
  from stringArray_prefix[OF this] have ab: "a = b" and t: "tailAxes d r = tailAxes d' r'" by simp_all
  from tailAxes_inj[OF t] ab h show ?thesis by simp
next
  assume h: "cd_subsets d = None" "cd_subsets d' = None"
  with assms have t: "tailAxes d r = tailAxes d' r'" by (simp add: tailSubsets_def optField_def)
  from tailAxes_inj[OF t] h show ?thesis by simp
next
  fix b assume h: "cd_subsets d = None" "cd_subsets d' = Some b"
  with assms have "tailAxes d r = CHR '','' # CHR 0x22 # ''subsets'' @ (CHR 0x22 # '':'' @ jsonArray (map jsonString b) @ tailAxes d' r')"
    by (simp add: tailSubsets_def optField_def key_texts)
  with tailAxes_start[of d r] show ?thesis by (auto simp: tailStart_def)
next
  fix a assume h: "cd_subsets d = Some a" "cd_subsets d' = None"
  with assms have "tailAxes d' r' = CHR '','' # CHR 0x22 # ''subsets'' @ (CHR 0x22 # '':'' @ jsonArray (map jsonString a) @ tailAxes d r)"
    by (simp add: tailSubsets_def optField_def key_texts)
  with tailAxes_start[of d' r'] show ?thesis by (auto simp: tailStart_def)
qed

lemma tailStyles_inj:
  assumes "tailStyles d r = tailStyles d' r'"
  shows "cd_styles d = cd_styles d' \<and> cd_subsets d = cd_subsets d' \<and> cd_axes d = cd_axes d' \<and> cd_preload d = cd_preload d' \<and> cd_display d = cd_display d' \<and> cd_priority d = cd_priority d' \<and> r = r'"
proof (cases "cd_styles d"; cases "cd_styles d'")
  fix a b assume h: "cd_styles d = Some a" "cd_styles d' = Some b"
  with assms have "jsonArray (map jsonString a) @ tailSubsets d r = jsonArray (map jsonString b) @ tailSubsets d' r'"
    by (simp add: tailStyles_def optField_def)
  from stringArray_prefix[OF this] have ab: "a = b" and t: "tailSubsets d r = tailSubsets d' r'" by simp_all
  from tailSubsets_inj[OF t] ab h show ?thesis by simp
next
  assume h: "cd_styles d = None" "cd_styles d' = None"
  with assms have t: "tailSubsets d r = tailSubsets d' r'" by (simp add: tailStyles_def optField_def)
  from tailSubsets_inj[OF t] h show ?thesis by simp
next
  fix b assume h: "cd_styles d = None" "cd_styles d' = Some b"
  with assms have "tailSubsets d r = CHR '','' # CHR 0x22 # ''styles'' @ (CHR 0x22 # '':'' @ jsonArray (map jsonString b) @ tailSubsets d' r')"
    by (simp add: tailStyles_def optField_def key_texts)
  with tailSubsets_start[of d r] show ?thesis by (auto simp: tailStart_def)
next
  fix a assume h: "cd_styles d = Some a" "cd_styles d' = None"
  with assms have "tailSubsets d' r' = CHR '','' # CHR 0x22 # ''styles'' @ (CHR 0x22 # '':'' @ jsonArray (map jsonString a) @ tailSubsets d r)"
    by (simp add: tailStyles_def optField_def key_texts)
  with tailSubsets_start[of d' r'] show ?thesis by (auto simp: tailStart_def)
qed

lemma tailWeights_inj:
  assumes "tailWeights d r = tailWeights d' r'"
  shows "cd_weights d = cd_weights d' \<and> cd_styles d = cd_styles d' \<and> cd_subsets d = cd_subsets d' \<and> cd_axes d = cd_axes d' \<and> cd_preload d = cd_preload d' \<and> cd_display d = cd_display d' \<and> cd_priority d = cd_priority d' \<and> r = r'"
proof (cases "cd_weights d"; cases "cd_weights d'")
  fix a b assume h: "cd_weights d = Some a" "cd_weights d' = Some b"
  with assms have "jsonArray (map numToString a) @ tailStyles d r = jsonArray (map numToString b) @ tailStyles d' r'"
    by (simp add: tailWeights_def optField_def)
  from numberArray_prefix[OF this] have ab: "a = b" and t: "tailStyles d r = tailStyles d' r'" by simp_all
  from tailStyles_inj[OF t] ab h show ?thesis by simp
next
  assume h: "cd_weights d = None" "cd_weights d' = None"
  with assms have t: "tailStyles d r = tailStyles d' r'" by (simp add: tailWeights_def optField_def)
  from tailStyles_inj[OF t] h show ?thesis by simp
next
  fix b assume h: "cd_weights d = None" "cd_weights d' = Some b"
  with assms have "tailStyles d r = CHR '','' # CHR 0x22 # ''weights'' @ (CHR 0x22 # '':'' @ jsonArray (map numToString b) @ tailStyles d' r')"
    by (simp add: tailWeights_def optField_def key_texts)
  with tailStyles_start[of d r] show ?thesis by (auto simp: tailStart_def)
next
  fix a assume h: "cd_weights d = Some a" "cd_weights d' = None"
  with assms have "tailStyles d' r' = CHR '','' # CHR 0x22 # ''weights'' @ (CHR 0x22 # '':'' @ jsonArray (map numToString a) @ tailStyles d r)"
    by (simp add: tailWeights_def optField_def key_texts)
  with tailStyles_start[of d' r'] show ?thesis by (auto simp: tailStart_def)
qed

lemma jsonConfigData_prefix:
  assumes "jsonConfigData d @ r = jsonConfigData d' @ r'"
  shows "d = d' \<and> r = r'"
proof -
  from assms have 1: "jsonString (cd_package d) @ '','' @ jsonString ''family'' @ '':'' @ jsonString (cd_family d)
     @ '','' @ jsonString ''variable'' @ '':'' @ jsonBool (cd_variable d) @ tailWeights d r
    = jsonString (cd_package d') @ '','' @ jsonString ''family'' @ '':'' @ jsonString (cd_family d')
     @ '','' @ jsonString ''variable'' @ '':'' @ jsonBool (cd_variable d') @ tailWeights d' r'"
    unfolding jsonConfigData_tail by simp
  from jsonString_prefix[OF 1] have p: "cd_package d = cd_package d'"
    and 2: "jsonString (cd_family d)
     @ '','' @ jsonString ''variable'' @ '':'' @ jsonBool (cd_variable d) @ tailWeights d r
    = jsonString (cd_family d')
     @ '','' @ jsonString ''variable'' @ '':'' @ jsonBool (cd_variable d') @ tailWeights d' r'"
    by simp_all
  from jsonString_prefix[OF 2] have f: "cd_family d = cd_family d'"
    and 3: "jsonBool (cd_variable d) @ tailWeights d r = jsonBool (cd_variable d') @ tailWeights d' r'"
    by simp_all
  from jsonBool_prefix[OF 3] have v: "cd_variable d = cd_variable d'"
    and 4: "tailWeights d r = tailWeights d' r'" by simp_all
  from tailWeights_inj[OF 4] p f v show ?thesis by (simp add: ConfigData.equality)
qed

lemma jsonConfigData_hd: "\<exists>c t. jsonConfigData d = c # t \<and> c \<noteq> CHR '']''"
  by (simp add: jsonConfigData_def jsonObject_def)

lemma objectArray_prefix:
  assumes "jsonArray (map jsonConfigData as) @ r = jsonArray (map jsonConfigData bs) @ r'"
  shows "as = bs \<and> r = r'"
proof (rule jsonArray_prefix[of jsonConfigData, OF _ _ assms])
  fix a b xs ys r r'
  assume "jsonConfigData a @ arrayRest xs @ r = jsonConfigData b @ arrayRest ys @ r'"
  then show "a = b \<and> arrayRest xs @ r = arrayRest ys @ r'" by (rule jsonConfigData_prefix)
next
  fix a show "\<exists>c t. jsonConfigData a = c # t \<and> c \<noteq> CHR '']''" by (rule jsonConfigData_hd)
qed

text \<open>
  Equal configuration texts come from the same normalised requests, and the normal forms
  of two requests agree exactly when the requests agree on the hashed fields. Hence a
  change of one request in a hashed field changes the text.
\<close>

lemma configString_inj:
  assumes "configString collKey fonts = configString collKey fonts'"
  shows "mset (map normalizeFont fonts) = mset (map normalizeFont fonts')"
proof -
  from assms have "jsonArray (map jsonConfigData (sortBy (comparePackage collKey) (map normalizeFont fonts))) @ []
      = jsonArray (map jsonConfigData (sortBy (comparePackage collKey) (map normalizeFont fonts'))) @ []"
    by (simp add: configString_def)
  from objectArray_prefix[OF this]
  have "sort_key (\<lambda>d. collKey (cd_package d)) (map normalizeFont fonts)
      = sort_key (\<lambda>d. collKey (cd_package d)) (map normalizeFont fonts')"
    by (simp add: sortBy_comparePackage)
  then have "mset (sort_key (\<lambda>d. collKey (cd_package d)) (map normalizeFont fonts))
      = mset (sort_key (\<lambda>d. collKey (cd_package d)) (map normalizeFont fonts'))" by simp
  then show ?thesis by (simp only: mset_sort)
qed

lemma map_option_sorted_mset:
  assumes "map_option srt a = map_option srt b" "\<And>xs. mset (srt xs) = mset xs"
  shows "map_option mset a = map_option mset b"
proof (cases a)
  case None
  with assms(1) show ?thesis by (cases b) simp_all
next
  case (Some xs)
  with assms(1) obtain ys where b: "b = Some ys" "srt xs = srt ys" by (cases b) simp_all
  then have "mset (srt xs) = mset (srt ys)" by simp
  then have "mset xs = mset ys" by (simp only: assms(2))
  with Some b show ?thesis by simp
qed

lemma normalizeFont_eq_iff: "normalizeFont a = normalizeFont b \<longleftrightarrow> sameHashedFields a b"
proof
  assume e: "normalizeFont a = normalizeFont b"
  have n: "mset (jsSortNums xs) = mset xs" for xs by (simp add: jsSortNums_sort_key)
  have s: "mset (jsSortStrs xs) = mset xs" for xs by (simp add: jsSortStrs_sort_key)
  have w: "map_option jsSortNums (cfg_weights a) = map_option jsSortNums (cfg_weights b)"
    using arg_cong[OF e, of cd_weights] by (simp add: normalizeFont_def)
  have st: "map_option jsSortStrs (cfg_styles a) = map_option jsSortStrs (cfg_styles b)"
    using arg_cong[OF e, of cd_styles] by (simp add: normalizeFont_def)
  have su: "map_option jsSortStrs (cfg_subsets a) = map_option jsSortStrs (cfg_subsets b)"
    using arg_cong[OF e, of cd_subsets] by (simp add: normalizeFont_def)
  have ax: "map_option jsSortStrs (cfg_axes a) = map_option jsSortStrs (cfg_axes b)"
    using arg_cong[OF e, of cd_axes] by (simp add: normalizeFont_def)
  have 1: "cfg_package a = cfg_package b"
    using arg_cong[OF e, of cd_package] by (simp add: normalizeFont_def)
  have 2: "cfg_family a = cfg_family b"
    using arg_cong[OF e, of cd_family] by (simp add: normalizeFont_def)
  have 3: "cfg_variable a = cfg_variable b"
    using arg_cong[OF e, of cd_variable] by (simp add: normalizeFont_def)
  have 4: "cfg_preload a = cfg_preload b"
    using arg_cong[OF e, of cd_preload] by (simp add: normalizeFont_def)
  have 5: "cfg_display a = cfg_display b"
    using arg_cong[OF e, of cd_display] by (simp add: normalizeFont_def)
  have 6: "cfg_priority a = cfg_priority b"
    using arg_cong[OF e, of cd_priority] by (simp add: normalizeFont_def)
  from 1 2 3 4 5 6
    map_option_sorted_mset[OF w n] map_option_sorted_mset[OF st s]
    map_option_sorted_mset[OF su s] map_option_sorted_mset[OF ax s]
  show "sameHashedFields a b" unfolding sameHashedFields_def by blast
next
  assume "sameHashedFields a b"
  then show "normalizeFont a = normalizeFont b"
    unfolding sameHashedFields_def normalizeFont_def
    using map_option_perm[of "cfg_weights a" "cfg_weights b" jsSortNums, OF _ jsSortNums_perm]
          map_option_perm[of "cfg_styles a" "cfg_styles b" jsSortStrs, OF _ jsSortStrs_perm]
          map_option_perm[of "cfg_subsets a" "cfg_subsets b" jsSortStrs, OF _ jsSortStrs_perm]
          map_option_perm[of "cfg_axes a" "cfg_axes b" jsSortStrs, OF _ jsSortStrs_perm]
    by simp
qed

lemma mset_update_same:
  assumes "i < length xs" "mset (xs[i := y]) = mset xs"
  shows "y = xs ! i"
proof -
  from assms(1) have "mset (xs[i := y]) = add_mset y (mset xs - {#xs ! i#})"
    by (simp add: mset_update)
  with assms(2) have "add_mset y (mset xs - {#xs ! i#}) = mset xs" by simp
  moreover from assms(1) have "add_mset (xs ! i) (mset xs - {#xs ! i#}) = mset xs"
    by (intro insert_DiffM) simp
  ultimately have "add_mset y (mset xs - {#xs ! i#}) = add_mset (xs ! i) (mset xs - {#xs ! i#})"
    by simp
  then show ?thesis by simp
qed

lemma configString_changes:
  assumes "i < length fonts" "\<not> sameHashedFields (fonts ! i) g"
  shows "configString collKey (fonts[i := g]) \<noteq> configString collKey fonts"
proof
  assume "configString collKey (fonts[i := g]) = configString collKey fonts"
  from configString_inj[OF this]
  have "mset ((map normalizeFont fonts)[i := normalizeFont g]) = mset (map normalizeFont fonts)"
    by (simp add: map_update)
  from mset_update_same[OF _ this] assms(1)
  have "normalizeFont (fonts ! i) = normalizeFont g" by simp
  with assms(2) show False by (simp add: normalizeFont_eq_iff)
qed

text \<open>
  Two requests whose packages collate equal: the two orders of the pair give different
  texts as soon as the requests differ in a hashed property.
\<close>

lemma configString_same_package_swap:
  assumes "collKey (cfg_package a) = collKey (cfg_package b)" "\<not> sameHashedFields a b"
  shows "configString collKey [a, b] \<noteq> configString collKey [b, a]"
proof
  assume e: "configString collKey [a, b] = configString collKey [b, a]"
  from assms(1) have k: "collKey (cd_package (normalizeFont a)) = collKey (cd_package (normalizeFont b))"
    by (simp add: normalizeFont_def)
  from e have "jsonArray (map jsonConfigData [normalizeFont a, normalizeFont b]) @ []
             = jsonArray (map jsonConfigData [normalizeFont b, normalizeFont a]) @ []"
    using k by (simp add: configString_def sortBy_comparePackage)
  from objectArray_prefix[OF this, THEN conjunct1]
  have "normalizeFont a = normalizeFont b" by (rule list.inject[THEN iffD1, THEN conjunct1])
  with assms(2) show False by (simp only: normalizeFont_eq_iff)
qed

section \<open>Verification: cache validity\<close>

lemma updateCache_written:
  assumes "cacheWritable cm fs" "updateCache rt collKey cm fs fonts results = (fs1, fonts1)"
  shows "map_of fs1 (cm_cacheFile cm) =
           Some \<lparr> fe_node = File (CacheJson
                     \<lparr> ce_timestamp = rt_now rt,
                       ce_configHash = fst (generateConfigHash rt collKey fonts),
                       ce_fonts = sanitizeResults rt results,
                       ce_version = cm_moduleVersion cm \<rparr>),
                  fe_size = rt_jsonLength rt
                     \<lparr> ce_timestamp = rt_now rt,
                       ce_configHash = fst (generateConfigHash rt collKey fonts),
                       ce_fonts = sanitizeResults rt results,
                       ce_version = cm_moduleVersion cm \<rparr>,
                  fe_mtimeMs = rt_now rt \<rparr>"
    and "fonts1 = map sortedInPlace fonts"
proof -
  let ?e = "\<lparr> fe_node = File (CacheJson
                     \<lparr> ce_timestamp = rt_now rt,
                       ce_configHash = fst (generateConfigHash rt collKey fonts),
                       ce_fonts = sanitizeResults rt results,
                       ce_version = cm_moduleVersion cm \<rparr>),
                  fe_size = rt_jsonLength rt
                     \<lparr> ce_timestamp = rt_now rt,
                       ce_configHash = fst (generateConfigHash rt collKey fonts),
                       ce_fonts = sanitizeResults rt results,
                       ce_version = cm_moduleVersion cm \<rparr>,
                  fe_mtimeMs = rt_now rt \<rparr>"
  from assms(1) have w: "writeEntry fs (cm_cacheFile cm) ?e = Inr (AList.update (cm_cacheFile cm) ?e fs)"
    by (auto simp: cacheWritable_def writeEntry_def split: option.splits fnode.splits)
  from assms(2) w have "fs1 = AList.update (cm_cacheFile cm) ?e fs" and f: "fonts1 = map sortedInPlace fonts"
    by (auto simp: updateCache_def generateConfigHash_def Let_def)
  then show "map_of fs1 (cm_cacheFile cm) = Some ?e" by (simp add: update_conv')
  show "fonts1 = map sortedInPlace fonts" by (rule f)
qed

lemma cut_resolves:
  assumes "cutAtSeparator (rt_cwd rt) p"
  shows "makeRelativePath rt p = [] \<or> resolvePath rt (makeRelativePath rt p) = p"
proof (cases "startsWith p (rt_cwd rt)")
  case False
  with assms show ?thesis
    by (simp add: cutAtSeparator_def makeRelativePath_def resolvePath_def)
next
  case True
  with assms have root: "rt_cwd rt \<noteq> ''/''"
    and sep: "startsWith p (rt_cwd rt @ ''/'')"
    and one: "\<not> startsWith p (rt_cwd rt @ ''//'')"
    by (simp_all add: cutAtSeparator_def)
  define r where "r = drop (length (rt_cwd rt) + 1) p"
  from sep have p: "p = rt_cwd rt @ ''/'' @ r"
    unfolding r_def startsWith_def by (metis append_take_drop_id length_append_singleton Suc_eq_plus1 append_assoc)
  from True have m: "makeRelativePath rt p = r"
    by (simp add: makeRelativePath_def r_def)
  show ?thesis
  proof (cases r)
    case Nil
    with m show ?thesis by simp
  next
    case (Cons c cs)
    with one p have "c \<noteq> CHR ''/''" by (auto simp: startsWith_def)
    with Cons have "\<not> startsWith r ''/''" by (simp add: startsWith_def)
    with root m p show ?thesis by (simp add: resolvePath_def underCwd_def join_def)
  qed
qed

lemma fileMissing_sanitize:
  assumes "case ff_path file of None \<Rightarrow> True
           | Some p \<Rightarrow> existsSync fs p \<and> cutAtSeparator (rt_cwd rt) p"
      and "rt_cwd rt2 = rt_cwd rt"
  shows "\<not> fileMissing rt2 fs (sanitizeFile rt file)"
proof (cases "ff_path file")
  case None
  then show ?thesis by (simp add: fileMissing_def sanitizeFile_def)
next
  case (Some p)
  with assms(1) have e: "existsSync fs p" and c: "cutAtSeparator (rt_cwd rt) p" by simp_all
  have r: "resolvePath rt2 q = resolvePath rt q" for q
    by (simp add: resolvePath_def underCwd_def assms(2))
  from cut_resolves[OF c] e Some show ?thesis
    by (auto simp: fileMissing_def sanitizeFile_def r)
qed

lemma recordedSources_mem:
  assumes "font \<in> set results" "pf_errors font = []" "file \<in> set (pf_files font)"
          "ff_path file = Some p"
  shows "p \<in> set (recordedSources results)"
  using assms by (force simp: recordedSources_def List.map_filter_def)

lemma checkFilesModified_unchanged:
  assumes "\<forall>p\<in>set (recordedSources results). existsSync fs p \<and> cutAtSeparator (rt_cwd rt) p"
      and "unmodifiedSince (getCacheTimestamp cm fs) fs"
      and "rt_cwd rt2 = rt_cwd rt"
  shows "\<not> checkFilesModified rt2 cm fs (sanitizeResults rt results)"
  using assms(1)
proof (induction results)
  case Nil
  then show ?case by (simp add: sanitizeResults_def)
next
  case (Cons font results)
  have "set (recordedSources results) \<subseteq> set (recordedSources (font # results))"
    by (simp add: recordedSources_def)
  with Cons.prems have "\<forall>p\<in>set (recordedSources results). existsSync fs p \<and> cutAtSeparator (rt_cwd rt) p"
    by blast
  from Cons.IH[OF this] have ih: "\<not> checkFilesModified rt2 cm fs (sanitizeResults rt results)" .
  show ?case
  proof (cases "pf_errors font = []")
    case False
    with ih show ?thesis by (simp add: sanitizeResults_def)
  next
    case True
    have pm: "\<not> packageModified rt2 cm fs (font\<lparr>pf_files := map (sanitizeFile rt) (pf_files font)\<rparr>)"
    proof -
      have "fe_mtimeMs e \<le> getCacheTimestamp cm fs + 1000" if "map_of fs q = Some e" for q e
      proof -
        from that have "(q, e) \<in> set fs" by (rule map_of_SomeD)
        with assms(2) have "fe_mtimeMs e \<le> getCacheTimestamp cm fs"
          by (auto simp: unmodifiedSince_def)
        then show ?thesis by simp
      qed
      then show ?thesis
        by (auto simp: packageModified_def split: option.splits simp: not_less)
    qed
    have fm: "\<not> fileMissing rt2 fs (sanitizeFile rt fl)" if "fl \<in> set (pf_files font)" for fl
    proof (rule fileMissing_sanitize[OF _ assms(3)])
      show "case ff_path fl of None \<Rightarrow> True
            | Some p \<Rightarrow> existsSync fs p \<and> cutAtSeparator (rt_cwd rt) p"
      proof (cases "ff_path fl")
        case None
        then show ?thesis by simp
      next
        case (Some p)
        have "font \<in> set (font # results)" by simp
        from recordedSources_mem[OF this True that Some] Cons.prems Some show ?thesis by simp
      qed
    qed
    then have "\<not> list_ex (fileMissing rt2 fs) (map (sanitizeFile rt) (pf_files font))"
      by (auto simp: list_ex_iff)
    with True pm ih show ?thesis by (simp add: sanitizeResults_def)
  qed
qed

lemma normalizeFont_sortedInPlace: "normalizeFont (sortedInPlace f) = normalizeFont f"
proof -
  have n: "jsSortNums (jsSortNums xs) = jsSortNums xs" for xs
    by (rule jsSortNums_perm) (simp add: jsSortNums_sort_key)
  have s: "jsSortStrs (jsSortStrs xs) = jsSortStrs xs" for xs
    by (rule jsSortStrs_perm) (simp add: jsSortStrs_sort_key)
  show ?thesis
    by (simp add: normalizeFont_def sortedInPlace_def option.map_comp o_def n s)
qed

lemma configString_sortedInPlace:
  "configString collKey (map sortedInPlace fonts) = configString collKey fonts"
  by (simp add: configString_def o_def normalizeFont_sortedInPlace)

text \<open>
  Against a cache written by \<^verbatim>\<open>updateCache\<close> for a request list, with the same digest:
  a request list is accepted only if its hash is the cached one, so a change to one
  request in a hashed property is rejected unless the digest collides on the two texts;
  a change confined to the custom fallback and the custom unicode ranges gets the answer
  that the unchanged list gets.
\<close>

lemma isCacheValid_hashed_change:
  assumes "cacheWritable cm fs"
      and "updateCache rt collKey cm fs fonts results = (fs1, fonts1)"
      and "map_of fs2 (cm_cacheFile cm) = map_of fs1 (cm_cacheFile cm)"
      and "rt_sha256 rt2 = rt_sha256 rt"
      and "i < length fonts" "\<not> sameHashedFields (fonts ! i) g"
      and "inj_on (rt_sha256 rt) {configString collKey fonts, configString collKey (fonts[i := g])}"
  shows "\<not> fst (isCacheValid rt2 collKey cm fs2 (fonts[i := g]))"
proof -
  from updateCache_written(1)[OF assms(1,2)] assms(3)
  have c: "map_of fs2 (cm_cacheFile cm) =
           Some \<lparr> fe_node = File (CacheJson
                     \<lparr> ce_timestamp = rt_now rt,
                       ce_configHash = fst (generateConfigHash rt collKey fonts),
                       ce_fonts = sanitizeResults rt results,
                       ce_version = cm_moduleVersion cm \<rparr>),
                  fe_size = rt_jsonLength rt
                     \<lparr> ce_timestamp = rt_now rt,
                       ce_configHash = fst (generateConfigHash rt collKey fonts),
                       ce_fonts = sanitizeResults rt results,
                       ce_version = cm_moduleVersion cm \<rparr>,
                  fe_mtimeMs = rt_now rt \<rparr>" by simp
  from configString_changes[OF assms(5,6)]
  have "configString collKey (fonts[i := g]) \<noteq> configString collKey fonts" .
  with assms(7) have "rt_sha256 rt (configString collKey (fonts[i := g]))
                  \<noteq> rt_sha256 rt (configString collKey fonts)"
    by (auto dest: inj_onD)
  then have "fst (generateConfigHash rt2 collKey (fonts[i := g]))
           \<noteq> fst (generateConfigHash rt collKey fonts)"
    by (simp add: generateConfigHash_def assms(4))
  with c show ?thesis
    by (auto simp: isCacheValid_def existsSync_def readFileSync_def generateConfigHash_def)
qed

lemma isCacheValid_unhashed_change:
  assumes "i < length fonts" "sameHashedFields (fonts ! i) g"
  shows "fst (isCacheValid rt collKey cm fs (fonts[i := g])) = fst (isCacheValid rt collKey cm fs fonts)"
proof -
  from assms(2) have "normalizeFont (fonts ! i) = normalizeFont g"
    by (simp only: normalizeFont_eq_iff)
  then have "normalizeFont g = normalizeFont (fonts ! i)" by (rule sym)
  with assms(1) have "map normalizeFont (fonts[i := g]) = map normalizeFont fonts"
    by (simp add: map_update list_update_same_conv)
  then have "configString collKey (fonts[i := g]) = configString collKey fonts"
    by (simp add: configString_def)
  then show ?thesis
    by (simp add: isCacheValid_def generateConfigHash_def split: sum.splits content.splits)
qed

lemma demo_display_change:
  "\<not> fst (isCacheValid laterRuntime codeUnitKey (fst demoCache) (fst demoCached)
            ([demoRequest][0 := demoBlock]))"
proof -
  have w: "cacheWritable (fst demoCache) (fst demoProcessed)" by code_simp
  have u: "updateCache demoRuntime codeUnitKey (fst demoCache) (fst demoProcessed)
             [demoRequest] (snd demoProcessed) = (fst demoCached, snd demoCached)"
    by (simp add: demoCached_def)
  have e: "rt_sha256 laterRuntime = rt_sha256 demoRuntime"
    by (simp add: laterRuntime_def)
  have l: "(0::nat) < length [demoRequest]" by simp
  have d: "\<not> sameHashedFields ([demoRequest] ! 0) demoBlock"
    by (simp add: sameHashedFields_def demoBlock_def demoRequest_def)
  have "demoSha256 textDemo \<noteq> demoSha256 textDemoBlock" by code_simp
  then have inj: "inj_on (rt_sha256 demoRuntime)
         {configString codeUnitKey [demoRequest], configString codeUnitKey ([demoRequest][0 := demoBlock])}"
    by (auto simp: inj_on_def config_texts demoRuntime_def)
  from isCacheValid_hashed_change[OF w u refl e l d inj] show ?thesis .
qed

text \<open>
  The repeated run. The cache was written for a request list and a result list; the
  check runs later on a file system that still has that cache file, with the same digest
  and working directory, within the TTL, on the same requests (as given, or as the
  in-place sorts left them). It answers true when every recorded source file exists,
  nothing on disk was modified after the cache was written, and the cut of
  \<^verbatim>\<open>makeRelativePath\<close> falls on the separator for every recorded path.
\<close>

lemma isCacheValid_sources_present:
  assumes "cacheWritable cm fs"
      and "updateCache rt collKey cm fs fonts results = (fs1, fonts1)"
      and "map_of fs2 (cm_cacheFile cm) = map_of fs1 (cm_cacheFile cm)"
      and "rt_sha256 rt2 = rt_sha256 rt" "rt_cwd rt2 = rt_cwd rt"
      and "rt_now rt2 - rt_now rt \<le> cm_ttl cm"
      and "fonts2 = fonts \<or> fonts2 = fonts1"
      and "\<forall>p\<in>set (recordedSources results). existsSync fs2 p \<and> cutAtSeparator (rt_cwd rt) p"
      and "unmodifiedSince (rt_now rt) fs2"
  shows "fst (isCacheValid rt2 collKey cm fs2 fonts2)"
proof -
  note w = updateCache_written[OF assms(1,2)]
  from w(1) assms(3) have c: "map_of fs2 (cm_cacheFile cm) =
           Some \<lparr> fe_node = File (CacheJson
                     \<lparr> ce_timestamp = rt_now rt,
                       ce_configHash = fst (generateConfigHash rt collKey fonts),
                       ce_fonts = sanitizeResults rt results,
                       ce_version = cm_moduleVersion cm \<rparr>),
                  fe_size = rt_jsonLength rt
                     \<lparr> ce_timestamp = rt_now rt,
                       ce_configHash = fst (generateConfigHash rt collKey fonts),
                       ce_fonts = sanitizeResults rt results,
                       ce_version = cm_moduleVersion cm \<rparr>,
                  fe_mtimeMs = rt_now rt \<rparr>" by simp
  have hash: "fst (generateConfigHash rt2 collKey fonts2) = fst (generateConfigHash rt collKey fonts)"
    using assms(4,7) w(2) by (auto simp: generateConfigHash_def configString_sortedInPlace)
  have ts: "getCacheTimestamp cm fs2 = rt_now rt" using c by (simp add: getCacheTimestamp_def)
  from assms(9) have "unmodifiedSince (getCacheTimestamp cm fs2) fs2" by (simp only: ts)
  from checkFilesModified_unchanged[OF assms(8) this assms(5)]
  have "\<not> checkFilesModified rt2 cm fs2 (sanitizeResults rt results)" .
  with hash assms(6) c show ?thesis
    by (auto simp: isCacheValid_def existsSync_def readFileSync_def split: prod.splits)
qed

text \<open>
  The recorded source files do exist after a run: each was read when it was copied, and
  neither the copies nor the cache file remove a path.
\<close>

lemma copyLoop_sources:
  assumes "copyLoop rt fp family fs files acc = (fs', Inr out)"
      and "\<forall>f\<in>set acc. \<exists>p. ff_path f = Some p \<and> existsSync fs p"
  shows "\<forall>f\<in>set out. \<exists>p. ff_path f = Some p \<and> existsSync fs' p"
  using assms
proof (induction files arbitrary: fs acc)
  case Nil
  then show ?case by simp
next
  case (Cons f files)
  from Cons.prems(1) obtain path content fam fs1 where
    pth: "ff_path f = Some path" and rd: "readFileSync fs path = Inr content"
    and fam: "family = Some fam"
    and cp: "copyFileSync (rt_now rt) fs path (join (fp_outputDir fp) (hashedName rt fam f content)) = Inr fs1"
    and rest: "copyLoop rt fp family fs1 files
                 (acc @ [f\<lparr> ff_url := Some (''/fonts/'' @ hashedName rt fam f content),
                            ff_hash := Some (take 8 (rt_md5 rt content)) \<rparr>]) = (fs', Inr out)"
    by (auto simp: Let_def split: option.splits sum.splits)
  from rd have "existsSync fs path"
    by (auto simp: readFileSync_def existsSync_def split: option.splits)
  with Cons.prems(2) pth copyFileSync_exists[OF cp]
  have "\<forall>g\<in>set (acc @ [f\<lparr> ff_url := Some (''/fonts/'' @ hashedName rt fam f content),
                            ff_hash := Some (take 8 (rt_md5 rt content)) \<rparr>]).
          \<exists>p. ff_path g = Some p \<and> existsSync fs1 p"
    by auto
  from Cons.IH[OF rest this] show ?case .
qed

lemma processFont_exists:
  assumes "processFont rt fp fs c = (fs', res)" "existsSync fs p"
  shows "existsSync fs' p"
  using assms
  by (auto simp: processFont_def copyFontFiles_def
           split: option.splits sum.splits if_splits prod.splits dest: copyLoop_exists)

lemma processFont_sources:
  assumes "processFont rt fp fs c = (fs', Inr r)"
  shows "\<forall>f\<in>set (pf_files r). \<exists>p. ff_path f = Some p \<and> existsSync fs' p"
proof -
  from assms obtain m files out where
    cp: "copyFontFiles rt fp fs files (md_family m) = (fs', Inr out)"
    and r: "r = \<lparr> pf_config = c, pf_metadata = m, pf_files = out, pf_errors = [] \<rparr>"
    by (auto simp: processFont_def split: option.splits sum.splits if_splits prod.splits)
  from copyLoop_sources[OF cp[unfolded copyFontFiles_def]] r show ?thesis by simp
qed

lemma processLoop_sources:
  assumes "processLoop rt fp fs cs acc = (fs', results)"
      and "\<forall>pf\<in>set acc. \<forall>f\<in>set (pf_files pf). \<exists>p. ff_path f = Some p \<and> existsSync fs p"
  shows "\<forall>pf\<in>set results. \<forall>f\<in>set (pf_files pf). \<exists>p. ff_path f = Some p \<and> existsSync fs' p"
  using assms
proof (induction cs arbitrary: fs acc)
  case Nil
  then show ?case by simp
next
  case (Cons c cs)
  obtain fs1 res where pf: "processFont rt fp fs c = (fs1, res)" by (cases "processFont rt fp fs c")
  from Cons.prems(2) processFont_exists[OF pf]
  have old: "\<forall>pf\<in>set acc. \<forall>f\<in>set (pf_files pf). \<exists>p. ff_path f = Some p \<and> existsSync fs1 p"
    by blast
  show ?case
  proof (cases res)
    case (Inl msg)
    with pf Cons.prems(1) have l: "processLoop rt fp fs1 cs (acc @ [failedEntry c msg]) = (fs', results)"
      by simp
    from old have "\<forall>pf\<in>set (acc @ [failedEntry c msg]). \<forall>f\<in>set (pf_files pf).
                     \<exists>p. ff_path f = Some p \<and> existsSync fs1 p"
      by (simp add: failedEntry_def)
    from Cons.IH[OF l this] show ?thesis .
  next
    case (Inr r)
    with pf Cons.prems(1) have l: "processLoop rt fp fs1 cs (acc @ [r]) = (fs', results)"
      by simp
    from pf Inr have "processFont rt fp fs c = (fs1, Inr r)" by simp
    from processFont_sources[OF this] old
    have "\<forall>pf\<in>set (acc @ [r]). \<forall>f\<in>set (pf_files pf). \<exists>p. ff_path f = Some p \<and> existsSync fs1 p"
      by simp
    from Cons.IH[OF l this] show ?thesis .
  qed
qed

lemma processAll_sources:
  assumes "processAll rt fp fs0 = (fs, results)"
  shows "\<forall>p\<in>set (recordedSources results). existsSync fs p"
proof -
  from assms have "processLoop rt fp fs0 (sortBy comparePriority (opt_fonts (fp_options fp))) [] = (fs, results)"
    by (simp add: processAll_def)
  from processLoop_sources[OF this]
  have "\<forall>pf\<in>set results. \<forall>f\<in>set (pf_files pf). \<exists>p. ff_path f = Some p \<and> existsSync fs p"
    by simp
  then show ?thesis
    by (fastforce simp: recordedSources_def List.map_filter_def split: if_splits)
qed

lemma updateCache_exists:
  assumes "updateCache rt collKey cm fs fonts results = (fs1, fonts1)" "existsSync fs p"
  shows "existsSync fs1 p"
  using assms
  by (auto simp: updateCache_def generateConfigHash_def Let_def split: sum.splits
           dest: writeEntry_exists)

text \<open>
  The repeated run on the file system as the first run left it: a run of \<^verbatim>\<open>processAll\<close>,
  then \<^verbatim>\<open>updateCache\<close>, then the check, with the same requests, digest and working
  directory, within the TTL. The check answers true when no file carries a modification
  time after the moment the cache was written and the cut of \<^verbatim>\<open>makeRelativePath\<close> falls on
  the separator for every recorded path.
\<close>

lemma isCacheValid_repeated_run:
  assumes "processAll rt fp fs0 = (fs, results)"
      and "cacheWritable cm fs"
      and "updateCache rt collKey cm fs fonts results = (fs1, fonts1)"
      and "rt_sha256 rt2 = rt_sha256 rt" "rt_cwd rt2 = rt_cwd rt"
      and "rt_now rt2 - rt_now rt \<le> cm_ttl cm"
      and "fonts2 = fonts \<or> fonts2 = fonts1"
      and "\<forall>p\<in>set (recordedSources results). cutAtSeparator (rt_cwd rt) p"
      and "unmodifiedSince (rt_now rt) fs1"
  shows "fst (isCacheValid rt2 collKey cm fs1 fonts2)"
proof -
  from processAll_sources[OF assms(1)] updateCache_exists[OF assms(3)] assms(8)
  have "\<forall>p\<in>set (recordedSources results). existsSync fs1 p \<and> cutAtSeparator (rt_cwd rt) p"
    by blast
  from isCacheValid_sources_present[OF assms(2,3) refl assms(4,5,6,7) this assms(9)]
  show ?thesis .
qed

lemma demo_repeated_run:
  "fst (isCacheValid laterRuntime codeUnitKey (fst demoCache) (fst demoCached) [demoRequest])"
proof -
  have p: "processAll demoRuntime (demoProcessor [demoRequest]) (snd demoCache)
             = (fst demoProcessed, snd demoProcessed)"
    by (simp add: demoProcessed_def)
  have w: "cacheWritable (fst demoCache) (fst demoProcessed)" by code_simp
  have u: "updateCache demoRuntime codeUnitKey (fst demoCache) (fst demoProcessed)
             [demoRequest] (snd demoProcessed) = (fst demoCached, snd demoCached)"
    by (simp add: demoCached_def)
  have e: "rt_sha256 laterRuntime = rt_sha256 demoRuntime" "rt_cwd laterRuntime = rt_cwd demoRuntime"
    by (simp_all add: laterRuntime_def)
  have t: "rt_now laterRuntime - rt_now demoRuntime \<le> cm_ttl (fst demoCache)" by code_simp
  have c: "\<forall>p\<in>set (recordedSources (snd demoProcessed)). cutAtSeparator (rt_cwd demoRuntime) p"
    by code_simp
  have m: "unmodifiedSince (rt_now demoRuntime) (fst demoCached)" by code_simp
  from isCacheValid_repeated_run[OF p w u e t _ c m, of "[demoRequest]"] show ?thesis by simp
qed

text \<open>
  With the root directory as working directory every absolute path begins with its
  text, and the cut takes off the separator and the first character of the path: the
  cache records \<^verbatim>\<open>pp/node_modules/pkg-a/files/demo-latin-wght-normal.woff2\<close> for the file under
  \<^verbatim>\<open>/app\<close>, the check looks for that path below the root, and the repeated run, one
  millisecond later on the untouched file system, is answered false.
\<close>

lemma root_cwd_repeated_run:
  "makeRelativePath rootRuntime ''/app/node_modules/pkg-a/files/demo-latin-wght-normal.woff2''
     = ''pp/node_modules/pkg-a/files/demo-latin-wght-normal.woff2''
   \<and> unmodifiedSince (rt_now rootRuntime) (fst rootCached)
   \<and> (\<forall>p\<in>set (recordedSources (snd rootProcessed)). existsSync (fst rootCached) p)
   \<and> \<not> fst (isCacheValid rootRepeat codeUnitKey (fst demoCache) (fst rootCached) [demoRequest])"
  by code_simp

text \<open>
  C4. The cache was written for the scenario's request. Setting the request's custom
  fallback, or its custom unicode ranges, changes the request and changes the stylesheet
  that a run generates for it (the fallback face names the custom fallback, the face
  carries the custom range), but neither property enters the hashed text: the check
  still answers true, on which answer the module skips the run and leaves the stylesheet
  of the old request in place.
\<close>

theorem isCacheValid_misses_unhashed_change:
  "demoGeorgia \<noteq> demoRequest
   \<and> fst (isCacheValid laterRuntime codeUnitKey (fst demoCache) (fst demoCached) [demoGeorgia])
   \<and> demoCapitals \<noteq> demoRequest
   \<and> fst (isCacheValid laterRuntime codeUnitKey (fst demoCache) (fst demoCached) [demoCapitals])
   \<and> demoFaces demoRequest
       = Inr (''/* Demo - pkg-a */'' @ nl @ demoFace @ demoFace @ demoFallbackFace @ nl)
   \<and> demoFaces demoGeorgia
       = Inr (''/* Demo - pkg-a */'' @ nl @ demoFace @ demoFace @ georgiaFallbackFace @ nl)
   \<and> demoFaces demoCapitals
       = Inr (''/* Demo - pkg-a */'' @ nl @ capitalsFace @ capitalsFace @ demoFallbackFace @ nl)
   \<and> georgiaFallbackFace \<noteq> demoFallbackFace \<and> capitalsFace \<noteq> demoFace"
  by code_simp

end
